theory Spec2Isabelle
  imports Main "HOL-Library.Sublist"
begin

section \<open>JavaScript string primitives used by src/index.js\<close>

text \<open>
  Flags are JavaScript strings, modelled as HOL strings. The two quote characters that
  the regular expression \<^verbatim>\<open>/--js-flags=(['"])/\<close> captures:
\<close>

definition single_quote :: char where
  "single_quote = CHR 0x27"

definition double_quote :: char where
  "double_quote = CHR 0x22"

definition is_quote :: "char \<Rightarrow> bool" where
  "is_quote c = (c = single_quote \<or> c = double_quote)"

text \<open>
  \<^verbatim>\<open>s.indexOf(pat)\<close>: the first index at which \<open>pat\<close> occurs in \<open>s\<close>;
  JavaScript's \<^verbatim>\<open>-1\<close> is \<open>None\<close>.
\<close>

fun indexOf :: "string \<Rightarrow> string \<Rightarrow> nat option" where
  "indexOf [] pat = (if pat = [] then Some 0 else None)"
| "indexOf (c # s) pat =
     (if prefix pat (c # s) then Some 0 else map_option Suc (indexOf s pat))"

text \<open>
  \<^verbatim>\<open>s.replace(new RegExp(pat), rep)\<close> for a pattern without metacharacters and without the
  \<^verbatim>\<open>g\<close> flag: only the leftmost occurrence is replaced.
\<close>

fun replace_first :: "string \<Rightarrow> string \<Rightarrow> string \<Rightarrow> string" where
  "replace_first pat rep [] = (if pat = [] then rep else [])"
| "replace_first pat rep (c # s) =
     (if prefix pat (c # s) then rep @ drop (length pat) (c # s)
      else c # replace_first pat rep s)"

text \<open>
  \<^verbatim>\<open>s.replace(new RegExp(q + '$'), '')\<close>: without the \<^verbatim>\<open>m\<close> flag, \<^verbatim>\<open>$\<close> matches at the end of
  the input only, so the character \<open>q\<close> is removed when it is the last one.
\<close>

definition replace_end :: "char \<Rightarrow> string \<Rightarrow> string" where
  "replace_end q s = (if s \<noteq> [] \<and> last s = q then butlast s else s)"

section \<open>isJSFlags and sanitizeJSFlags\<close>

definition js_flags_prefix :: string where
  "js_flags_prefix = ''--js-flags=''"

text \<open>\<^verbatim>\<open>flag.indexOf('--js-flags=') === 0\<close>\<close>

definition isJSFlags :: "string \<Rightarrow> bool" where
  "isJSFlags flag = (indexOf flag js_flags_prefix = Some 0)"

text \<open>
  One attempt of \<^verbatim>\<open>/--js-flags=(['"])/\<close> at the start of \<open>s\<close>: the captured quote
  character when the pattern matches there.
\<close>

definition quoted_here :: "string \<Rightarrow> char option" where
  "quoted_here s =
     (if prefix js_flags_prefix s then
        (case drop (length js_flags_prefix) s of
           [] \<Rightarrow> None
         | q # _ \<Rightarrow> if is_quote q then Some q else None)
      else None)"

text \<open>
  \<^verbatim>\<open>/--js-flags=(['"])/.exec(flag)\<close>: the pattern is not anchored, so the leftmost position
  where it matches decides; the result is capture group 1 (\<^verbatim>\<open>test[1]\<close>), or \<open>None\<close> for
  \<^verbatim>\<open>null\<close>.
\<close>

fun exec_quote :: "string \<Rightarrow> char option" where
  "exec_quote [] = None"
| "exec_quote (c # s) =
     (case quoted_here (c # s) of Some q \<Rightarrow> Some q | None \<Rightarrow> exec_quote s)"

definition sanitizeJSFlags :: "string \<Rightarrow> string" where
  "sanitizeJSFlags flag =
     (case exec_quote flag of
        None \<Rightarrow> flag
      | Some escapeChar \<Rightarrow>
          replace_end escapeChar
            (replace_first (js_flags_prefix @ [escapeChar]) js_flags_prefix flag))"

section \<open>JavaScript values and truthiness\<close>

text \<open>
  A value that is either a string or absent: \<^verbatim>\<open>undefined\<close> and \<^verbatim>\<open>null\<close> are kept apart because
  the path resolvers return both. \<^verbatim>\<open>!v\<close> holds for both of them and for the empty string.
\<close>

datatype jsval = Null | Undefined | Str string

fun truthy :: "jsval \<Rightarrow> bool" where
  "truthy Null = False"
| "truthy Undefined = False"
| "truthy (Str s) = (s \<noteq> [])"

text \<open>A lookup in \<^verbatim>\<open>process.env\<close>: \<^verbatim>\<open>undefined\<close> when the variable is not set.\<close>

definition env_get :: "(string \<rightharpoonup> string) \<Rightarrow> string \<Rightarrow> jsval" where
  "env_get env name = (case env name of None \<Rightarrow> Undefined | Some v \<Rightarrow> Str v)"

section \<open>getEdgeExe\<close>

datatype platform = linux | darwin | win32 | other_platform

definition backslash :: char where
  "backslash = CHR 0x5C"

text \<open>\<^verbatim>\<open>`Microsoft\\${edgeDirName}\\Application\\msedge.exe`\<close>\<close>

definition suffix_of :: "string \<Rightarrow> string" where
  "suffix_of edgeDirName =
     ''Microsoft'' @ [backslash] @ edgeDirName @ [backslash] @ ''Application'' @ [backslash]
       @ ''msedge.exe''"

text \<open>
  The loop over \<^verbatim>\<open>prefixes\<close>. \<open>path_join\<close> is Node's \<^verbatim>\<open>path.join\<close> on two strings and
  \<open>accessSync\<close> tells whether \<^verbatim>\<open>fs.accessSync\<close> returns (it throws otherwise); both are
  parameters. \<^verbatim>\<open>path.join\<close> throws a \<^verbatim>\<open>TypeError\<close> on an argument that is not a string, so
  for an unset variable the assignment to \<^verbatim>\<open>windowsEdgeDirectory\<close> does not happen and the
  \<^verbatim>\<open>catch\<close> goes on with the next prefix. The last argument is the current value of
  \<^verbatim>\<open>windowsEdgeDirectory\<close>; \<open>sfx\<close>, \<open>pfx\<close> and \<open>pfxs\<close> are the source's \<^verbatim>\<open>suffix\<close>, \<^verbatim>\<open>prefix\<close> and the rest
  of \<^verbatim>\<open>prefixes\<close>.
\<close>

fun getEdgeExe_loop ::
  "(string \<Rightarrow> string \<Rightarrow> string) \<Rightarrow> (string \<Rightarrow> bool) \<Rightarrow> string \<Rightarrow> jsval list \<Rightarrow> jsval \<Rightarrow> jsval"
where
  "getEdgeExe_loop path_join accessSync sfx [] windowsEdgeDirectory = windowsEdgeDirectory"
| "getEdgeExe_loop path_join accessSync sfx (Str pfx # pfxs) windowsEdgeDirectory =
     (if accessSync (path_join pfx sfx) then Str (path_join pfx sfx)
      else getEdgeExe_loop path_join accessSync sfx pfxs (Str (path_join pfx sfx)))"
| "getEdgeExe_loop path_join accessSync sfx (_ # pfxs) windowsEdgeDirectory =
     getEdgeExe_loop path_join accessSync sfx pfxs windowsEdgeDirectory"

definition prefixes_of :: "(string \<rightharpoonup> string) \<Rightarrow> jsval list" where
  "prefixes_of env =
     [env_get env ''LOCALAPPDATA'', env_get env ''PROGRAMFILES'', env_get env ''PROGRAMFILES(X86)'']"

definition getEdgeExe ::
  "platform \<Rightarrow> (string \<rightharpoonup> string) \<Rightarrow> (string \<Rightarrow> string \<Rightarrow> string) \<Rightarrow> (string \<Rightarrow> bool) \<Rightarrow> string \<Rightarrow> jsval"
where
  "getEdgeExe process_platform env path_join accessSync edgeDirName =
     (if process_platform \<noteq> win32 then Null
      else getEdgeExe_loop path_join accessSync (suffix_of edgeDirName) (prefixes_of env) Undefined)"

text \<open>The prefixes that are strings, in the order of the loop.\<close>

definition strings_of :: "jsval list \<Rightarrow> string list" where
  "strings_of vs = concat (map (\<lambda>v. case v of Str s \<Rightarrow> [s] | _ \<Rightarrow> []) vs)"

text \<open>
  For concrete runs: a join that puts one separator between its arguments, and a disk on
  which no candidate exists.
\<close>

definition example_join :: "string \<Rightarrow> string \<Rightarrow> string" where
  "example_join a b = a @ [backslash] @ b"

definition nothing_exists :: "string \<Rightarrow> bool" where
  "nothing_exists candidate = False"

text \<open>An environment as on 32-bit Windows, where \<^verbatim>\<open>PROGRAMFILES(X86)\<close> is not set.\<close>

definition env32 :: "string \<rightharpoonup> string" where
  "env32 = [''LOCALAPPDATA'' \<mapsto> ''C:/Users/karma/AppData/Local'',
            ''PROGRAMFILES'' \<mapsto> ''C:/Program Files'']"

definition env64 :: "string \<rightharpoonup> string" where
  "env64 = env32(''PROGRAMFILES(X86)'' \<mapsto> ''C:/Program Files (x86)'')"

section \<open>The launcher and its option builders\<close>

text \<open>
  \<^verbatim>\<open>const flags = args.flags || []\<close> binds the closure variable to the caller's own array
  when there is one, and \<^verbatim>\<open>_getOptions\<close> writes into it. Arrays therefore live in a heap and
  are named by their address.
\<close>

type_synonym addr = nat

record heap =
  arr :: "addr \<Rightarrow> string list"
  next_free :: addr

definition alloc :: "string list \<Rightarrow> heap \<Rightarrow> heap \<times> addr" where
  "alloc v h = (h\<lparr>arr := (arr h)(next_free h := v), next_free := Suc (next_free h)\<rparr>, next_free h)"

record args =
  flags :: "addr option"
  edgeDataDir :: jsval

text \<open>The closure variables of one \<^verbatim>\<open>EdgeBrowser\<close> instance.\<close>

record launcher =
  closure_flags :: addr
  userDataDir :: string
  windowsUsed :: bool
  browserProcessPid :: "nat option"

text \<open>The constructor; \<open>tempDir\<close> is \<^verbatim>\<open>this._tempDir\<close>, set by the host's decorator.\<close>

definition EdgeBrowser :: "string \<Rightarrow> args \<Rightarrow> heap \<Rightarrow> heap \<times> launcher" where
  "EdgeBrowser tempDir a h =
     (let (h', fl) = (case flags a of Some r \<Rightarrow> (h, r) | None \<Rightarrow> alloc [] h)
      in (h', \<lparr>closure_flags = fl,
               userDataDir = (case edgeDataDir a of Str d \<Rightarrow> if d \<noteq> [] then d else tempDir
                              | _ \<Rightarrow> tempDir),
               windowsUsed = False,
               browserProcessPid = None\<rparr>))"

definition base_options :: "string list" where
  "base_options =
     [''--enable-automation'',
      ''--no-default-browser-check'',
      ''--no-first-run'',
      ''--disable-default-apps'',
      ''--disable-popup-blocking'',
      ''--disable-translate'',
      ''--disable-background-timer-throttling'',
      ''--disable-renderer-backgrounding'',
      ''--disable-device-discovery-notifications'']"

text \<open>
  \<^verbatim>\<open>flags.forEach((flag, i) => { if (isJSFlags(flag)) { flags[i] = sanitizeJSFlags(flag) } })\<close>:
  the indices \<open>0 ..< length\<close> in order, each step reading and writing the array itself.
\<close>

definition forEach_sanitize :: "string list \<Rightarrow> string list" where
  "forEach_sanitize fl =
     fold (\<lambda>i fl. if isJSFlags (fl ! i) then fl[i := sanitizeJSFlags (fl ! i)] else fl)
       [0 ..< length fl] fl"

text \<open>What one pass of that loop does to a single element.\<close>

definition sanitize_entry :: "string \<Rightarrow> string" where
  "sanitize_entry flag = (if isJSFlags flag then sanitizeJSFlags flag else flag)"

text \<open>\<^verbatim>\<open>this._getOptions\<close> of \<^verbatim>\<open>EdgeBrowser\<close>: the heap after the call and the array returned.\<close>

definition getOptions :: "launcher \<Rightarrow> heap \<Rightarrow> heap \<times> string list" where
  "getOptions b h =
     (let fl = forEach_sanitize (arr h (closure_flags b));
          h' = h\<lparr>arr := (arr h)(closure_flags b := fl)\<rparr>
      in (h', base_options @ fl))"

text \<open>\<^verbatim>\<open>(flag || '').indexOf('--remote-debugging-port=') !== -1\<close>\<close>

definition isRemoteDebuggingFlag :: "string \<Rightarrow> bool" where
  "isRemoteDebuggingFlag flag = (indexOf flag ''--remote-debugging-port='' \<noteq> None)"

text \<open>
  \<open>parent\<close> is the option builder being wrapped (\<^verbatim>\<open>parent.call(this, url, args)\<close>); it may
  write to the heap. \<open>isWsl\<close> is the value of the \<^verbatim>\<open>is-wsl\<close> module.
\<close>

definition getHeadlessOptions ::
  "bool \<Rightarrow> (heap \<Rightarrow> heap \<times> string list) \<Rightarrow> heap \<Rightarrow> heap \<times> string list"
where
  "getHeadlessOptions isWsl parent h =
     (let (h', parentArgs) = parent h;
          mergedArgs = parentArgs @ [''--headless'', ''--disable-gpu'', ''--disable-dev-shm-usage''];
          mergedArgs = (if isWsl then mergedArgs @ [''--no-sandbox''] else mergedArgs)
      in (h', if list_ex isRemoteDebuggingFlag mergedArgs then mergedArgs
              else mergedArgs @ [''--remote-debugging-port=9222'']))"

definition customFlags :: string where
  "customFlags = ''--nocrankshaft --noopt''"

text \<open>
  The \<^verbatim>\<open>forEach\<close> of \<^verbatim>\<open>getCanaryOptions\<close>: every flag that is a js-flags entry overwrites
  \<^verbatim>\<open>augmentedFlags\<close>, so the last one stays.
\<close>

definition augment :: "string list \<Rightarrow> string option" where
  "augment fl =
     fold (\<lambda>flag augmentedFlags.
             if isJSFlags flag then Some (sanitizeJSFlags flag @ '' '' @ customFlags)
             else augmentedFlags) fl None"

text \<open>
  \<^verbatim>\<open>args.flags || []\<close> is read, and the loop run, before \<^verbatim>\<open>parent.call(this, url)\<close>;
  \<^verbatim>\<open>augmentedFlags || `--js-flags=${customFlags}`\<close> takes the default for \<^verbatim>\<open>undefined\<close> and
  for the empty string.
\<close>

definition getCanaryOptions ::
  "args \<Rightarrow> (heap \<Rightarrow> heap \<times> string list) \<Rightarrow> heap \<Rightarrow> heap \<times> string list"
where
  "getCanaryOptions a parent h =
     (let fl = (case flags a of Some r \<Rightarrow> arr h r | None \<Rightarrow> []);
          augmentedFlags = augment fl;
          (h', parentArgs) = parent h
      in (h', parentArgs @
                [case augmentedFlags of
                   Some f \<Rightarrow> if f \<noteq> [] then f else js_flags_prefix @ customFlags
                 | None \<Rightarrow> js_flags_prefix @ customFlags]))"

text \<open>The eight registered launchers and the \<^verbatim>\<open>_getOptions\<close> each constructor installs.\<close>

datatype variant =
  Edge | EdgeHeadless | EdgeBeta | EdgeBetaHeadless | EdgeDev | EdgeDevHeadless
  | EdgeCanary | EdgeCanaryHeadless

fun variant_getOptions ::
  "variant \<Rightarrow> bool \<Rightarrow> args \<Rightarrow> launcher \<Rightarrow> heap \<Rightarrow> heap \<times> string list"
where
  "variant_getOptions Edge isWsl a b = getOptions b"
| "variant_getOptions EdgeBeta isWsl a b = getOptions b"
| "variant_getOptions EdgeDev isWsl a b = getOptions b"
| "variant_getOptions EdgeHeadless isWsl a b = getHeadlessOptions isWsl (getOptions b)"
| "variant_getOptions EdgeBetaHeadless isWsl a b = getHeadlessOptions isWsl (getOptions b)"
| "variant_getOptions EdgeDevHeadless isWsl a b = getHeadlessOptions isWsl (getOptions b)"
| "variant_getOptions EdgeCanary isWsl a b = getCanaryOptions a (getOptions b)"
| "variant_getOptions EdgeCanaryHeadless isWsl a b =
     getHeadlessOptions isWsl (getCanaryOptions a (getOptions b))"

text \<open>\<open>n\<close> calls of an option builder in a row: the heap after the last one.\<close>

fun call_times :: "nat \<Rightarrow> (heap \<Rightarrow> heap \<times> string list) \<Rightarrow> heap \<Rightarrow> heap" where
  "call_times 0 f h = h"
| "call_times (Suc n) f h = call_times n f (fst (f h))"

section \<open>The launch decision of _start\<close>

text \<open>
  What a launch did: \<^verbatim>\<open>useWindowsWSL\<close> spawns \<^verbatim>\<open>/bin/bash\<close> with a script built from the URL
  and the options, unless one of its \<^verbatim>\<open>execSync('wslpath -w ...')\<close> calls throws first;
  \<^verbatim>\<open>useNormal\<close> calls \<^verbatim>\<open>this._execCommand(command, [url, `--user-data-dir=...`].concat(options))\<close>.
  The text of the script and the translated paths are not part of the model.
\<close>

datatype outcome =
  Threw
| SpawnBash string "string list"
| ExecCommand jsval "string list"

text \<open>The launches that went through \<^verbatim>\<open>useWindowsWSL\<close>.\<close>

fun is_bridge :: "outcome \<Rightarrow> bool" where
  "is_bridge (ExecCommand command args) = False"
| "is_bridge out = True"

definition useWindowsWSL ::
  "bool \<Rightarrow> (heap \<Rightarrow> heap \<times> string list) \<Rightarrow> string \<Rightarrow> launcher \<Rightarrow> heap
     \<Rightarrow> heap \<times> launcher \<times> outcome"
where
  "useWindowsWSL execSync_throws getOpts url b h =
     (let b' = b\<lparr>windowsUsed := True\<rparr>
      in if execSync_throws then (h, b', Threw)
         else (let (h', opts) = getOpts h in (h', b', SpawnBash url opts)))"

definition useNormal ::
  "(heap \<Rightarrow> heap \<times> string list) \<Rightarrow> jsval \<Rightarrow> string \<Rightarrow> launcher \<Rightarrow> heap
     \<Rightarrow> heap \<times> launcher \<times> outcome"
where
  "useNormal getOpts command url b h =
     (let (h', opts) = getOpts h
      in (h', b, ExecCommand command ([url, ''--user-data-dir='' @ userDataDir b] @ opts)))"

text \<open>
  \<^verbatim>\<open>!this.DEFAULT_CMD.linux || !which.sync(this.DEFAULT_CMD.linux, { nothrow: true })\<close>;
  with \<^verbatim>\<open>nothrow\<close>, \<^verbatim>\<open>which.sync\<close> returns \<^verbatim>\<open>null\<close> for a command it does not find.
\<close>

definition linux_absent :: "jsval \<Rightarrow> (string \<Rightarrow> jsval) \<Rightarrow> bool" where
  "linux_absent DEFAULT_CMD_linux which_sync =
     (case DEFAULT_CMD_linux of
        Str c \<Rightarrow> c = [] \<or> \<not> truthy (which_sync c)
      | _ \<Rightarrow> True)"

text \<open>
  \<^verbatim>\<open>_start\<close> up to the registration of the stderr handler. \<open>command\<close> is the result of
  \<^verbatim>\<open>this._getCommand()\<close> and \<open>getOpts\<close> is \<^verbatim>\<open>this._getOptions\<close>, which the test of the
  second branch calls once more than the launch itself.
\<close>

definition start ::
  "bool \<Rightarrow> jsval \<Rightarrow> (string \<Rightarrow> jsval) \<Rightarrow> (string \<rightharpoonup> string) \<Rightarrow> bool \<Rightarrow> jsval
     \<Rightarrow> (heap \<Rightarrow> heap \<times> string list) \<Rightarrow> string \<Rightarrow> launcher \<Rightarrow> heap
     \<Rightarrow> heap \<times> launcher \<times> outcome"
where
  "start isWsl DEFAULT_CMD_linux which_sync env execSync_throws command getOpts url b h =
     (if isWsl then
        (if linux_absent DEFAULT_CMD_linux which_sync then
           useWindowsWSL execSync_throws getOpts url b h
         else
           (let (h1, opts) = getOpts h
            in if ''--headless'' \<notin> set opts \<and> \<not> truthy (env_get env ''DISPLAY'') then
                 useWindowsWSL execSync_throws getOpts url b h1
               else
                 useNormal getOpts DEFAULT_CMD_linux url b h1))
      else useNormal getOpts command url b h)"

section \<open>The stderr handler\<close>

text \<open>
  JavaScript strings are sequences of UTF-16 code units, here natural numbers; a
  \<^verbatim>\<open>Buffer\<close> is a sequence of bytes, written as a HOL string.
\<close>

type_synonym ustring = "nat list"

definition ustr :: "string \<Rightarrow> ustring" where
  "ustr s = map of_char s"

datatype chunk = StringChunk ustring | BufferChunk string

text \<open>
  The classes of \<^verbatim>\<open>/BROWSERBROWSERBROWSERBROWSER\s+debug me @ (\d+)/\<close>: \<^verbatim>\<open>\s\<close> is ECMAScript's
  white space and line terminators, \<^verbatim>\<open>\d\<close> is \<^verbatim>\<open>[0-9]\<close>.
\<close>

definition is_space :: "nat \<Rightarrow> bool" where
  "is_space u =
     (u \<in> {0x09, 0x0A, 0x0B, 0x0C, 0x0D, 0x20, 0xA0, 0x1680, 0x2028, 0x2029, 0x202F, 0x205F,
            0x3000, 0xFEFF}
      \<or> (0x2000 \<le> u \<and> u \<le> 0x200A))"

definition is_digit :: "nat \<Rightarrow> bool" where
  "is_digit u = (0x30 \<le> u \<and> u \<le> 0x39)"

text \<open>The marker as bytes, as the bash script writes it, and as text.\<close>

definition marker_bytes :: string where
  "marker_bytes = ''BROWSERBROWSERBROWSERBROWSER''"

definition marker :: ustring where
  "marker = ustr marker_bytes"

definition debug_me :: ustring where
  "debug_me = ustr ''debug me @ ''"

text \<open>
  One attempt of the pattern at the start of \<open>s\<close>: the digits of group 1. Both quantifiers are
  greedy; what follows \<^verbatim>\<open>\s+\<close> is not white space and nothing follows \<^verbatim>\<open>(\d+)\<close>, so
  backtracking finds no other match.
\<close>

definition sentinel_here :: "ustring \<Rightarrow> ustring option" where
  "sentinel_here s =
     (if prefix marker s then
        (let r = drop (length marker) s;
             r' = dropWhile is_space r
         in if takeWhile is_space r = [] then None
            else if prefix debug_me r' then
              (let ds = takeWhile is_digit (drop (length debug_me) r')
               in if ds = [] then None else Some ds)
            else None)
      else None)"

text \<open>\<^verbatim>\<open>errString.match(...)\<close>: the leftmost position where the pattern matches.\<close>

fun sentinel_match :: "ustring \<Rightarrow> ustring option" where
  "sentinel_match [] = None"
| "sentinel_match (u # s) =
     (case sentinel_here (u # s) of Some ds \<Rightarrow> Some ds | None \<Rightarrow> sentinel_match s)"

text \<open>
  The listener for \<^verbatim>\<open>'data'\<close> on \<^verbatim>\<open>runningProcess.stderr\<close>. Two functions of the platform are
  its parameters. \<open>decoder\<close> gives, for a buffer, what \<^verbatim>\<open>decoder.write(errBuff)\<close> returns on the
  \<^verbatim>\<open>new StringDecoder('utf8')\<close> that the listener has created in the same event; \<open>parseInt\<close>
  is JavaScript's \<^verbatim>\<open>parseInt(matches[1], 10)\<close>, with \<open>'n\<close> for the numbers it returns. The
  listener reads and writes one variable of the closure, \<^verbatim>\<open>browserProcessPid\<close>, whose value
  before the event is the last argument and whose value after it is the result.
\<close>

definition errString :: "(string \<Rightarrow> ustring) \<Rightarrow> chunk \<Rightarrow> ustring" where
  "errString decoder errBuff =
     (case errBuff of StringChunk s \<Rightarrow> s | BufferChunk buf \<Rightarrow> decoder buf)"

definition on_data ::
  "(string \<Rightarrow> ustring) \<Rightarrow> (ustring \<Rightarrow> 'n) \<Rightarrow> chunk \<Rightarrow> 'n option \<Rightarrow> 'n option"
where
  "on_data decoder parseInt errBuff pid_before =
     (case sentinel_match (errString decoder errBuff) of
        Some ds \<Rightarrow> Some (parseInt ds)
      | None \<Rightarrow> pid_before)"

text \<open>A sequence of \<^verbatim>\<open>'data'\<close> events, one chunk each.\<close>

definition on_data_all ::
  "(string \<Rightarrow> ustring) \<Rightarrow> (ustring \<Rightarrow> 'n) \<Rightarrow> chunk list \<Rightarrow> 'n option \<Rightarrow> 'n option"
where
  "on_data_all decoder parseInt chunks pid_before = fold (on_data decoder parseInt) chunks pid_before"

text \<open>
  What is used of \<^verbatim>\<open>StringDecoder\<close>, as a relation between a buffer and the text returned for
  it. Every ASCII byte is kept as the character of that code, in its place; a run of other
  bytes gives code units from U+0080 on (decoded characters, surrogates, U+FFFD), at least
  one when an ASCII byte follows the run, and possibly none when the run ends the buffer,
  where the decoder holds an incomplete character back.
\<close>

inductive text_of :: "string \<Rightarrow> ustring \<Rightarrow> bool" where
  text_Nil: "text_of [] []"
| text_ascii:
    "of_char c < (0x80::nat) \<Longrightarrow> text_of bs us \<Longrightarrow> text_of (c # bs) (of_char c # us)"
| text_other:
    "r \<noteq> [] \<Longrightarrow> list_all (\<lambda>c. (0x80::nat) \<le> of_char c) r \<Longrightarrow> list_all (\<lambda>u. 0x80 \<le> u) w \<Longrightarrow>
     w \<noteq> [] \<or> bs = [] \<Longrightarrow> text_of bs us \<Longrightarrow> text_of (r @ bs) (w @ us)"

text \<open>
  What the bash script of \<^verbatim>\<open>useWindowsWSL\<close> writes to its error stream for a process
  identifier, \<^verbatim>\<open>debugString="BROWSERBROWSERBROWSERBROWSER debug me @ $pid"\<close>, before the line
  end that \<^verbatim>\<open>echo\<close> adds; non-empty strings of decimal digits; byte strings that do not go
  on with a digit.
\<close>

definition sentinel_line :: "string \<Rightarrow> string" where
  "sentinel_line pid = marker_bytes @ '' debug me @ '' @ pid"

definition newline :: char where
  "newline = CHR 0x0A"

definition digits :: "string \<Rightarrow> bool" where
  "digits s = (s \<noteq> [] \<and> list_all (\<lambda>c. is_digit (of_char c)) s)"

definition no_digit_first :: "string \<Rightarrow> bool" where
  "no_digit_first s = (case s of [] \<Rightarrow> True | c # _ \<Rightarrow> \<not> is_digit (of_char c))"

text \<open>The positions at which \<open>pat\<close> occurs in \<open>s\<close>, in increasing order.\<close>

fun occurrences :: "string \<Rightarrow> string \<Rightarrow> nat list" where
  "occurrences pat [] = (if pat = [] then [0] else [])"
| "occurrences pat (c # s) =
     (if prefix pat (c # s) then [0] else []) @ map Suc (occurrences pat s)"

text \<open>
  For concrete runs: a decoder that keeps ASCII bytes and writes U+FFFD for every other byte,
  and the decimal value of a string of digits. On ASCII buffers, and on digit strings of
  values below \<open>2 ^ 53\<close>, they give what \<^verbatim>\<open>StringDecoder\<close> and \<^verbatim>\<open>parseInt\<close> give.
\<close>

definition example_decoder :: "string \<Rightarrow> ustring" where
  "example_decoder buf = map (\<lambda>c. if of_char c < (0x80::nat) then of_char c else 0xFFFD) buf"

definition example_parseInt :: "ustring \<Rightarrow> nat" where
  "example_parseInt ds = fold (\<lambda>d n. 10 * n + (d - 0x30)) ds 0"

section \<open>The kill handler\<close>

text \<open>
  The two termination calls, \<^verbatim>\<open>exec(`Taskkill.exe /PID ${pid} /F /FI "STATUS eq RUNNING"`)\<close> and
  \<^verbatim>\<open>process.kill(pid)\<close>. The world records the calls that went through, the callbacks queued by
  \<^verbatim>\<open>process.nextTick\<close> and the callbacks that have run.
\<close>

datatype kill_call = Taskkill nat | ProcessKill nat

record 'cb world =
  terminations :: "kill_call list"
  tick_queue :: "'cb list"
  invoked :: "'cb list"

text \<open>\<open>throws\<close> says for which calls the environment raises an exception.\<close>

definition terminate ::
  "(kill_call \<Rightarrow> bool) \<Rightarrow> kill_call \<Rightarrow> 'cb world \<Rightarrow> kill_call + 'cb world"
where
  "terminate throws t w =
     (if throws t then Inl t else Inr (w\<lparr>terminations := terminations w @ [t]\<rparr>))"

text \<open>
  \<^verbatim>\<open>if (browserProcessPid)\<close> is false for \<^verbatim>\<open>undefined\<close> and for \<open>0\<close>. The result is \<open>Inl\<close> when
  an exception leaves the handler.
\<close>

definition kill ::
  "(kill_call \<Rightarrow> bool) \<Rightarrow> launcher \<Rightarrow> 'cb \<Rightarrow> 'cb world \<Rightarrow> kill_call + 'cb world"
where
  "kill throws b done w =
     (let w1 =
        (case browserProcessPid b of
           None \<Rightarrow> w
         | Some pid \<Rightarrow>
             if pid = 0 then w
             else (case terminate throws
                          (if windowsUsed b then Taskkill pid else ProcessKill pid) w of
                     Inl e \<Rightarrow> w
                   | Inr w' \<Rightarrow> w'))
      in Inr (w1\<lparr>tick_queue := tick_queue w1 @ [done]\<rparr>))"

text \<open>The next tick runs the queued callbacks in order.\<close>

definition next_tick :: "'cb world \<Rightarrow> 'cb world" where
  "next_tick w = w\<lparr>invoked := invoked w @ tick_queue w, tick_queue := []\<rparr>"

section \<open>A concrete launcher\<close>

text \<open>
  A caller whose \<^verbatim>\<open>args.flags\<close> is the array at address \<open>0\<close>, a heap that holds the given
  flags there, and the launcher that the constructor builds for them.
\<close>

definition example_args :: args where
  "example_args = \<lparr>flags = Some 0, edgeDataDir = Undefined\<rparr>"

definition example_heap :: "string list \<Rightarrow> heap" where
  "example_heap fl = \<lparr>arr = (\<lambda>_. [])(0 := fl), next_free = 1\<rparr>"

definition example_launcher :: launcher where
  "example_launcher =
     \<lparr>closure_flags = 0, userDataDir = ''/tmp/karma-1'', windowsUsed = False,
      browserProcessPid = None\<rparr>"

text \<open>
  A \<^verbatim>\<open>which.sync\<close> that finds every command and one that finds none; an environment in which
  every termination call throws and one in which none does; the world before anything
  happened, with callbacks named by strings.
\<close>

definition which_found :: "string \<Rightarrow> jsval" where
  "which_found c = Str (''/usr/bin/'' @ c)"

definition which_missing :: "string \<Rightarrow> jsval" where
  "which_missing c = Null"

definition always_throws :: "kill_call \<Rightarrow> bool" where
  "always_throws t = True"

definition never_throws :: "kill_call \<Rightarrow> bool" where
  "never_throws t = False"

definition world0 :: "string world" where
  "world0 = \<lparr>terminations = [], tick_queue = [], invoked = []\<rparr>"

section \<open>Properties of the string primitives and of sanitizeJSFlags\<close>

lemma indexOf_None_iff: "indexOf s pat = None \<longleftrightarrow> \<not> sublist pat s"
  by (induction s) (auto simp: sublist_Cons_right)

lemma quoted_here_Some_iff:
  "quoted_here s = Some q \<longleftrightarrow> is_quote q \<and> prefix (js_flags_prefix @ [q]) s"
  by (auto simp: quoted_here_def prefix_def split: list.splits)

lemma quoted_here_None_iff:
  "quoted_here s = None \<longleftrightarrow> (\<forall>q. is_quote q \<longrightarrow> \<not> prefix (js_flags_prefix @ [q]) s)"
  using quoted_here_Some_iff [of s] by (metis not_Some_eq)

lemma exec_quote_None_iff:
  "exec_quote s = None \<longleftrightarrow> (\<forall>q. is_quote q \<longrightarrow> indexOf s (js_flags_prefix @ [q]) = None)"
  by (induction s) (auto simp: quoted_here_None_iff quoted_here_Some_iff split: option.splits)

lemma exec_quote_Some_occurs: "exec_quote s = Some q \<Longrightarrow> indexOf s (js_flags_prefix @ [q]) \<noteq> None"
  by (induction s) (auto simp: quoted_here_Some_iff split: option.splits)

lemma exec_quote_prefix:
  "is_quote q \<Longrightarrow> exec_quote (js_flags_prefix @ q # rest) = Some q"
  by (simp add: js_flags_prefix_def quoted_here_def)

lemma replace_first_prefix:
  "replace_first (pat @ [q]) rep (pat @ q # rest) = rep @ rest"
  by (cases pat) auto

lemma length_replace_first:
  "indexOf s pat \<noteq> None \<Longrightarrow> length (replace_first pat rep s) + length pat = length s + length rep"
proof (induction s)
  case Nil
  then show ?case by (auto split: if_splits)
next
  case (Cons c s)
  show ?case
  proof (cases "prefix pat (c # s)")
    case True
    then have "length pat \<le> length (c # s)" by (rule prefix_length_le)
    with True show ?thesis by simp
  next
    case False
    with Cons show ?thesis by auto
  qed
qed

lemma length_replace_end: "length (replace_end q s) \<le> length s"
  by (simp add: replace_end_def)

lemma sanitize_shorter:
  "exec_quote s = Some q \<Longrightarrow> length (sanitizeJSFlags s) < length s"
  using length_replace_first [OF exec_quote_Some_occurs, of s q js_flags_prefix]
    length_replace_end [of q "replace_first (js_flags_prefix @ [q]) js_flags_prefix s"]
  by (simp add: sanitizeJSFlags_def)

lemma sanitize_fixed_iff: "sanitizeJSFlags s = s \<longleftrightarrow> exec_quote s = None"
proof (cases "exec_quote s")
  case None then show ?thesis by (simp add: sanitizeJSFlags_def)
next
  case (Some q)
  from sanitize_shorter [OF this] show ?thesis using Some by auto
qed

lemma sanitize_quoted:
  "is_quote q \<Longrightarrow> sanitizeJSFlags (js_flags_prefix @ q # rest) =
     js_flags_prefix @ (if rest \<noteq> [] \<and> last rest = q then butlast rest else rest)"
proof -
  assume q: "is_quote q"
  have ne: "last js_flags_prefix \<noteq> q"
    using q by (auto simp: js_flags_prefix_def is_quote_def single_quote_def double_quote_def)
  have "sanitizeJSFlags (js_flags_prefix @ q # rest) = replace_end q (js_flags_prefix @ rest)"
    by (simp add: sanitizeJSFlags_def exec_quote_prefix [OF q] replace_first_prefix)
  also have "\<dots> = js_flags_prefix @ (if rest \<noteq> [] \<and> last rest = q then butlast rest else rest)"
    using ne by (cases "rest = []") (auto simp: replace_end_def butlast_append js_flags_prefix_def)
  finally show ?thesis .
qed

lemma quote_not_in_prefix: "is_quote q \<Longrightarrow> q \<notin> set js_flags_prefix"
  by (auto simp: js_flags_prefix_def is_quote_def single_quote_def double_quote_def)

lemma exec_quote_unquoted:
  assumes "\<forall>c \<in> set body. \<not> is_quote c"
  shows "exec_quote (js_flags_prefix @ body) = None"
proof -
  have "indexOf (js_flags_prefix @ body) (js_flags_prefix @ [q]) = None" if q: "is_quote q" for q
  proof (rule ccontr)
    assume "indexOf (js_flags_prefix @ body) (js_flags_prefix @ [q]) \<noteq> None"
    then have "sublist (js_flags_prefix @ [q]) (js_flags_prefix @ body)"
      by (simp add: indexOf_None_iff)
    then have "set (js_flags_prefix @ [q]) \<subseteq> set (js_flags_prefix @ body)"
      by (rule set_mono_sublist)
    then have "q \<in> set js_flags_prefix \<or> q \<in> set body" by auto
    with q assms quote_not_in_prefix show False by blast
  qed
  then show ?thesis by (simp add: exec_quote_None_iff)
qed

text \<open>
  Claim C3, as amended. When the value after the prefix \<^verbatim>\<open>--js-flags=\<close> opens with a quote
  character \<open>q\<close> and the flag ends with the same \<open>q\<close>, sanitizeJSFlags strips exactly that
  opening quote and that closing quote. When the opening quote is not matched at the end (the
  rest is empty or ends in another character), the two replacements are still carried out one
  after the other: the opening quote is stripped and nothing is removed at the end.
\<close>

theorem sanitize_strips_quotes:
  "is_quote q \<Longrightarrow>
     sanitizeJSFlags (js_flags_prefix @ [q] @ body @ [q]) = js_flags_prefix @ body
     \<and> (rest = [] \<or> last rest \<noteq> q \<longrightarrow>
          sanitizeJSFlags (js_flags_prefix @ [q] @ rest) = js_flags_prefix @ rest)"
  using sanitize_quoted [of q "body @ [q]"] sanitize_quoted [of q rest] by auto

text \<open>
  The examples of the specification, single and double quotes, and two flags whose opening
  quote has no partner.
\<close>

theorem sanitize_strips_quotes_witness:
  "is_quote single_quote \<and> is_quote double_quote
   \<and> sanitizeJSFlags (''--js-flags='' @ [single_quote] @ ''--foo --bar'' @ [single_quote])
       = ''--js-flags=--foo --bar''
   \<and> sanitizeJSFlags (''--js-flags='' @ [double_quote] @ ''--foo --bar'' @ [double_quote])
       = ''--js-flags=--foo --bar''
   \<and> last ''--foo'' \<noteq> single_quote
   \<and> sanitizeJSFlags (''--js-flags='' @ [single_quote] @ ''--foo'') = ''--js-flags=--foo''
   \<and> last (''--foo'' @ [double_quote]) \<noteq> single_quote
   \<and> sanitizeJSFlags (''--js-flags='' @ [single_quote] @ ''--foo'' @ [double_quote])
       = ''--js-flags=--foo'' @ [double_quote]"
proof -
  have s: "is_quote single_quote" and d: "is_quote double_quote"
    by (simp_all add: is_quote_def)
  have l1: "last ''--foo'' \<noteq> single_quote"
    and l2: "last (''--foo'' @ [double_quote]) \<noteq> single_quote"
    by (simp_all add: single_quote_def double_quote_def)
  show ?thesis
    using s d l1 l2
      sanitize_strips_quotes [OF s, of "''--foo --bar''" "''--foo''"]
      sanitize_strips_quotes [OF d, of "''--foo --bar''" "[]"]
      sanitize_strips_quotes [OF s, of "[]" "''--foo'' @ [double_quote]"]
    by (simp add: js_flags_prefix_def)
qed

text \<open>
  Claim C3 as stated fails: the unterminated \<^verbatim>\<open>--js-flags='--foo\<close> is not returned unchanged,
  it loses its opening quote.
\<close>

theorem sanitize_unterminated_counterexample:
  "sanitizeJSFlags (''--js-flags='' @ [single_quote] @ ''--foo'') = ''--js-flags=--foo''
   \<and> ''--js-flags=--foo'' \<noteq> ''--js-flags='' @ [single_quote] @ ''--foo''"
  by (simp add: sanitizeJSFlags_def quoted_here_def js_flags_prefix_def is_quote_def
      single_quote_def double_quote_def replace_end_def)

text \<open>
  Claim C4, as amended. The pattern \<^verbatim>\<open>/--js-flags=(['"])/\<close> is searched in the whole flag, so
  what leaves a flag unchanged is that \<^verbatim>\<open>--js-flags=\<close> followed by a quote character occurs
  nowhere in it, as in every flag in which \<^verbatim>\<open>--js-flags=\<close> does not occur at all; the callers
  apply sanitizeJSFlags only behind the test isJSFlags.
\<close>

theorem sanitize_without_quoted_prefix:
  "(indexOf flag (js_flags_prefix @ [single_quote]) = None \<and>
    indexOf flag (js_flags_prefix @ [double_quote]) = None \<longrightarrow> sanitizeJSFlags flag = flag)
   \<and> (indexOf flag js_flags_prefix = None \<longrightarrow> sanitizeJSFlags flag = flag)"
proof (intro conjI impI)
  assume "indexOf flag (js_flags_prefix @ [single_quote]) = None \<and>
    indexOf flag (js_flags_prefix @ [double_quote]) = None"
  then show "sanitizeJSFlags flag = flag"
    by (simp add: sanitize_fixed_iff exec_quote_None_iff is_quote_def)
next
  assume "indexOf flag js_flags_prefix = None"
  then have "\<not> sublist js_flags_prefix flag"
    by (simp add: indexOf_None_iff)
  then have "\<not> sublist (js_flags_prefix @ [q]) flag" for q
    by (auto simp: sublist_def)
  then show "sanitizeJSFlags flag = flag"
    by (simp add: sanitize_fixed_iff exec_quote_None_iff indexOf_None_iff)
qed

text \<open>A flag with the prefix and an unquoted value, and a flag without the prefix.\<close>

theorem sanitize_without_quoted_prefix_witness:
  "indexOf ''--js-flags=--expose-gc'' (js_flags_prefix @ [single_quote]) = None \<and>
   indexOf ''--js-flags=--expose-gc'' (js_flags_prefix @ [double_quote]) = None \<and>
   sanitizeJSFlags ''--js-flags=--expose-gc'' = ''--js-flags=--expose-gc'' \<and>
   indexOf ''--headless'' js_flags_prefix = None \<and>
   sanitizeJSFlags ''--headless'' = ''--headless''"
proof -
  have a: "indexOf ''--js-flags=--expose-gc'' (js_flags_prefix @ [single_quote]) = None"
    by (simp add: js_flags_prefix_def single_quote_def)
  have b: "indexOf ''--js-flags=--expose-gc'' (js_flags_prefix @ [double_quote]) = None"
    by (simp add: js_flags_prefix_def double_quote_def)
  have c: "indexOf ''--headless'' js_flags_prefix = None"
    by (simp add: js_flags_prefix_def)
  from a b conjunct1 [OF sanitize_without_quoted_prefix [of "''--js-flags=--expose-gc''"]]
  have r1: "sanitizeJSFlags ''--js-flags=--expose-gc'' = ''--js-flags=--expose-gc''"
    by blast
  from c conjunct2 [OF sanitize_without_quoted_prefix [of "''--headless''"]]
  have r2: "sanitizeJSFlags ''--headless'' = ''--headless''"
    by blast
  from a b c r1 r2 show ?thesis by simp
qed

text \<open>
  Claim C4 as stated fails: \<^verbatim>\<open>x--js-flags='a'\<close> does not begin with the prefix and is changed.
\<close>

theorem sanitize_not_anchored_counterexample:
  "\<not> prefix ''--js-flags='' (''x--js-flags='' @ [single_quote] @ ''a'' @ [single_quote])
   \<and> sanitizeJSFlags (''x--js-flags='' @ [single_quote] @ ''a'' @ [single_quote])
       \<noteq> ''x--js-flags='' @ [single_quote] @ ''a'' @ [single_quote]"
  by (simp add: sanitizeJSFlags_def quoted_here_def js_flags_prefix_def is_quote_def
      single_quote_def double_quote_def replace_end_def)

text \<open>
  Claim C5, as amended. One application of sanitizeJSFlags removes one level of quoting.
  Applying it twice gives the same as applying it once exactly when the result of the first
  application no longer contains \<^verbatim>\<open>--js-flags=\<close> followed by a quote character; this is so
  for \<^verbatim>\<open>--js-flags=\<close> followed by a body without quote characters, whether the body stands
  alone, behind an opening quote, or between a pair of quotes.
\<close>

theorem sanitize_idempotent_one_level:
  "(sanitizeJSFlags (sanitizeJSFlags f) = sanitizeJSFlags f \<longleftrightarrow>
      (\<forall>q. is_quote q \<longrightarrow> indexOf (sanitizeJSFlags f) (js_flags_prefix @ [q]) = None))
   \<and> ((\<forall>c \<in> set body. \<not> is_quote c) \<longrightarrow> is_quote q \<longrightarrow>
        (\<forall>g \<in> {js_flags_prefix @ body, js_flags_prefix @ [q] @ body,
                 js_flags_prefix @ [q] @ body @ [q]}.
           sanitizeJSFlags (sanitizeJSFlags g) = sanitizeJSFlags g))"
proof (intro conjI impI)
  show "sanitizeJSFlags (sanitizeJSFlags f) = sanitizeJSFlags f \<longleftrightarrow>
      (\<forall>q. is_quote q \<longrightarrow> indexOf (sanitizeJSFlags f) (js_flags_prefix @ [q]) = None)"
    by (simp add: sanitize_fixed_iff exec_quote_None_iff)
next
  assume body: "\<forall>c \<in> set body. \<not> is_quote c" and q: "is_quote q"
  have fixed: "sanitizeJSFlags (js_flags_prefix @ body) = js_flags_prefix @ body"
    using exec_quote_unquoted [OF body] by (simp add: sanitize_fixed_iff)
  have open_only: "sanitizeJSFlags (js_flags_prefix @ [q] @ body) = js_flags_prefix @ body"
    using sanitize_quoted [OF q, of body] body q by auto
  have wrapped: "sanitizeJSFlags (js_flags_prefix @ [q] @ body @ [q]) = js_flags_prefix @ body"
    using sanitize_quoted [OF q, of "body @ [q]"] by simp
  show "\<forall>g \<in> {js_flags_prefix @ body, js_flags_prefix @ [q] @ body,
                 js_flags_prefix @ [q] @ body @ [q]}.
           sanitizeJSFlags (sanitizeJSFlags g) = sanitizeJSFlags g"
    using fixed open_only wrapped by simp
qed

text \<open>The flag \<^verbatim>\<open>--js-flags='--x'\<close> and the body \<^verbatim>\<open>--x\<close>.\<close>

theorem sanitize_idempotent_one_level_witness:
  "\<not> is_quote CHR ''-'' \<and> \<not> is_quote CHR ''x'' \<and> is_quote single_quote
   \<and> indexOf (sanitizeJSFlags (''--js-flags='' @ [single_quote] @ ''--x'' @ [single_quote]))
         (js_flags_prefix @ [single_quote]) = None
   \<and> indexOf (sanitizeJSFlags (''--js-flags='' @ [single_quote] @ ''--x'' @ [single_quote]))
         (js_flags_prefix @ [double_quote]) = None
   \<and> sanitizeJSFlags (sanitizeJSFlags (''--js-flags='' @ [single_quote] @ ''--x'' @ [single_quote]))
       = sanitizeJSFlags (''--js-flags='' @ [single_quote] @ ''--x'' @ [single_quote])
   \<and> sanitizeJSFlags (sanitizeJSFlags (''--js-flags='' @ [single_quote] @ ''--x''))
       = sanitizeJSFlags (''--js-flags='' @ [single_quote] @ ''--x'')
   \<and> sanitizeJSFlags (sanitizeJSFlags ''--js-flags=--x'') = sanitizeJSFlags ''--js-flags=--x''"
proof -
  let ?f = "''--js-flags='' @ [single_quote] @ ''--x'' @ [single_quote]"
  have b: "\<forall>c \<in> set ''--x''. \<not> is_quote c"
    by (simp add: is_quote_def single_quote_def double_quote_def)
  have s: "is_quote single_quote" and d: "is_quote double_quote"
    by (simp_all add: is_quote_def)
  note t = sanitize_idempotent_one_level [of ?f "''--x''" single_quote]
  from conjunct2 [OF t] b s
  have family: "\<forall>g \<in> {js_flags_prefix @ ''--x'', js_flags_prefix @ [single_quote] @ ''--x'',
                 js_flags_prefix @ [single_quote] @ ''--x'' @ [single_quote]}.
           sanitizeJSFlags (sanitizeJSFlags g) = sanitizeJSFlags g"
    by blast
  then have twice: "sanitizeJSFlags (sanitizeJSFlags ?f) = sanitizeJSFlags ?f"
    by (simp add: js_flags_prefix_def)
  with conjunct1 [OF t]
  have none: "\<forall>q. is_quote q \<longrightarrow> indexOf (sanitizeJSFlags ?f) (js_flags_prefix @ [q]) = None"
    by blast
  from none s d
  have n1: "indexOf (sanitizeJSFlags ?f) (js_flags_prefix @ [single_quote]) = None"
    and n2: "indexOf (sanitizeJSFlags ?f) (js_flags_prefix @ [double_quote]) = None"
    by blast+
  from family b s twice n1 n2 show ?thesis
    by (simp add: js_flags_prefix_def)
qed

text \<open>
  Claim C5 as stated fails on nested quotes: \<^verbatim>\<open>--js-flags='"a"'\<close> becomes
  \<^verbatim>\<open>--js-flags="a"\<close> and then \<^verbatim>\<open>--js-flags=a\<close>.
\<close>

theorem sanitize_not_idempotent_counterexample:
  "sanitizeJSFlags (sanitizeJSFlags
      (''--js-flags='' @ [single_quote, double_quote] @ ''a'' @ [double_quote, single_quote]))
   \<noteq> sanitizeJSFlags
      (''--js-flags='' @ [single_quote, double_quote] @ ''a'' @ [double_quote, single_quote])"
  by (simp add: sanitizeJSFlags_def quoted_here_def js_flags_prefix_def is_quote_def
      single_quote_def double_quote_def replace_end_def)

section \<open>Properties of the option builders\<close>

lemma isJSFlags_iff: "isJSFlags flag \<longleftrightarrow> prefix js_flags_prefix flag"
  by (cases flag) (auto simp: isJSFlags_def js_flags_prefix_def)

lemma take_replace_first:
  "prefix rep pat \<Longrightarrow> n \<le> length rep \<Longrightarrow> take n (replace_first pat rep s) = take n s"
proof (induction s arbitrary: n)
  case Nil
  then show ?case by auto
next
  case (Cons c s)
  show ?case
  proof (cases "prefix pat (c # s)")
    case True
    then obtain zs where zs: "c # s = pat @ zs" by (auto simp: prefix_def)
    from Cons.prems obtain ys where ys: "pat = rep @ ys" by (auto simp: prefix_def)
    have "take n (replace_first pat rep (c # s)) = take n rep"
      using True Cons.prems by simp
    moreover have "take n (c # s) = take n rep"
      using Cons.prems unfolding zs ys by simp
    ultimately show ?thesis by simp
  next
    case False
    then show ?thesis using Cons by (cases n) auto
  qed
qed

lemma prefix_replace_first:
  assumes "prefix js_flags_prefix s"
  shows "prefix js_flags_prefix (replace_first (js_flags_prefix @ [q]) js_flags_prefix s)"
proof -
  have "take (length js_flags_prefix) (replace_first (js_flags_prefix @ [q]) js_flags_prefix s)
        = take (length js_flags_prefix) s"
    by (rule take_replace_first) simp_all
  also have "\<dots> = js_flags_prefix" using assms by (auto simp: prefix_def)
  finally show ?thesis by (metis take_is_prefix)
qed

lemma prefix_replace_end:
  assumes "prefix js_flags_prefix s" and "is_quote q"
  shows "prefix js_flags_prefix (replace_end q s)"
proof -
  from assms(1) obtain t where t: "s = js_flags_prefix @ t" by (auto simp: prefix_def)
  have ne: "last js_flags_prefix \<noteq> q"
    using assms(2) by (auto simp: js_flags_prefix_def is_quote_def single_quote_def double_quote_def)
  show ?thesis
  proof (cases "t = []")
    case True
    with t ne show ?thesis by (simp add: replace_end_def)
  next
    case False
    with t show ?thesis by (simp add: replace_end_def butlast_append)
  qed
qed

lemma exec_quote_Some_quote: "exec_quote s = Some q \<Longrightarrow> is_quote q"
  by (induction s) (auto simp: quoted_here_Some_iff split: option.splits)

lemma isJSFlags_sanitize: "isJSFlags flag \<Longrightarrow> isJSFlags (sanitizeJSFlags flag)"
  unfolding isJSFlags_iff sanitizeJSFlags_def
  by (auto split: option.splits intro!: prefix_replace_end prefix_replace_first
      dest: exec_quote_Some_quote)

lemma fold_update_prefix:
  "n \<le> length fl \<Longrightarrow>
   fold (\<lambda>i fl. if isJSFlags (fl ! i) then fl[i := sanitizeJSFlags (fl ! i)] else fl) [0 ..< n] fl
     = map sanitize_entry (take n fl) @ drop n fl"
proof (induction n)
  case 0
  then show ?case by simp
next
  case (Suc n)
  let ?step = "\<lambda>i fl. if isJSFlags (fl ! i) then fl[i := sanitizeJSFlags (fl ! i)] else fl"
  let ?pre = "map sanitize_entry (take n fl)"
  let ?mid = "?pre @ drop n fl"
  from Suc.prems have n: "n < length fl" by simp
  have len: "length ?pre = n" using n by simp
  have mid: "?mid = ?pre @ fl ! n # drop (Suc n) fl"
    using n by (simp add: Cons_nth_drop_Suc)
  have nth: "?mid ! n = fl ! n"
    unfolding mid using len by (metis nth_append_length)
  have upd: "?mid[n := v] = ?pre @ v # drop (Suc n) fl" for v
    unfolding mid using len by (metis list_update_length)
  have "fold ?step [0 ..< Suc n] fl = ?step n (fold ?step [0 ..< n] fl)"
    by simp
  also have "fold ?step [0 ..< n] fl = ?mid"
    using Suc.IH n by simp
  also have "?step n ?mid = ?pre @ sanitize_entry (fl ! n) # drop (Suc n) fl"
    unfolding nth upd using mid by (simp add: sanitize_entry_def)
  also have "\<dots> = map sanitize_entry (take (Suc n) fl) @ drop (Suc n) fl"
    using n by (simp add: take_Suc_conv_app_nth)
  finally show ?case .
qed

lemma forEach_sanitize_map: "forEach_sanitize fl = map sanitize_entry fl"
  using fold_update_prefix [of "length fl" fl] by (simp add: forEach_sanitize_def)


lemma isJSFlags_sanitize_entry: "isJSFlags (sanitize_entry flag) = isJSFlags flag"
  by (simp add: sanitize_entry_def isJSFlags_sanitize)

lemma sanitize_entry_funpow:
  "(sanitize_entry ^^ n) flag = (if isJSFlags flag then (sanitizeJSFlags ^^ n) flag else flag)"
proof (induction n)
  case 0
  then show ?case by simp
next
  case (Suc n)
  have "isJSFlags flag \<Longrightarrow> isJSFlags ((sanitizeJSFlags ^^ n) flag)"
    by (induction n) (simp_all add: isJSFlags_sanitize)
  with Suc show ?case by (simp add: sanitize_entry_def)
qed

lemma getOptions_heap:
  "fst (getOptions b h) = h\<lparr>arr := (arr h)(closure_flags b := map sanitize_entry (arr h (closure_flags b)))\<rparr>"
  by (simp add: getOptions_def Let_def forEach_sanitize_map)

lemma getHeadlessOptions_heap: "fst (getHeadlessOptions isWsl parent h) = fst (parent h)"
  by (simp add: getHeadlessOptions_def Let_def split: prod.splits)

lemma getCanaryOptions_heap: "fst (getCanaryOptions a parent h) = fst (parent h)"
  by (simp add: getCanaryOptions_def Let_def split: prod.splits)

lemma variant_getOptions_heap:
  "fst (variant_getOptions v isWsl a b h) = fst (getOptions b h)"
  by (cases v) (simp_all add: getHeadlessOptions_heap getCanaryOptions_heap)

lemma call_times_arr:
  "arr (call_times n (variant_getOptions v isWsl a b) h) =
     (arr h)(closure_flags b := map (sanitize_entry ^^ n) (arr h (closure_flags b)))"
proof (induction n arbitrary: h)
  case 0
  then show ?case by simp
next
  case (Suc n)
  let ?r = "closure_flags b"
  let ?h = "fst (variant_getOptions v isWsl a b h)"
  have h: "arr ?h = (arr h)(?r := map sanitize_entry (arr h ?r))"
    by (simp add: variant_getOptions_heap getOptions_heap)
  have comp: "sanitize_entry ^^ n \<circ> sanitize_entry = sanitize_entry ^^ Suc n"
    by (simp only: funpow_Suc_right)
  have "arr (call_times (Suc n) (variant_getOptions v isWsl a b) h) =
          (arr ?h)(?r := map (sanitize_entry ^^ n) (arr ?h ?r))"
    by (simp only: call_times.simps Suc [of ?h])
  also have "\<dots> = (arr h)(?r := map (sanitize_entry ^^ Suc n) (arr h ?r))"
    unfolding h by (simp add: comp del: funpow.simps)
  finally show ?case .
qed

lemma EdgeBrowser_flags:
  "flags a = Some r \<Longrightarrow> EdgeBrowser tempDir a h = (h1, b) \<Longrightarrow> h1 = h \<and> closure_flags b = r"
  by (auto simp: EdgeBrowser_def)

lemma example_EdgeBrowser:
  "EdgeBrowser ''/tmp/karma-1'' example_args (example_heap fl) = (example_heap fl, example_launcher)"
  by (simp add: EdgeBrowser_def example_args_def example_launcher_def)

lemma sanitize_example:
  "sanitizeJSFlags (''--js-flags='' @ [single_quote] @ ''--x'' @ [single_quote]) = ''--js-flags=--x''"
  "sanitizeJSFlags ''--js-flags=--x'' = ''--js-flags=--x''"
  by (simp_all add: sanitizeJSFlags_def quoted_here_def js_flags_prefix_def is_quote_def
      single_quote_def double_quote_def replace_end_def)

lemma isJSFlags_example:
  "isJSFlags (''--js-flags='' @ [single_quote] @ ''--x'' @ [single_quote])"
  "isJSFlags ''--js-flags=--x''"
  "\<not> isJSFlags ''--foo''"
  "\<not> isJSFlags ''--remote-debugging-port=1234''"
  by (simp_all add: isJSFlags_def js_flags_prefix_def)

lemma getOptions_example:
  "getOptions example_launcher (example_heap []) = (example_heap [], base_options)"
  "getOptions example_launcher (example_heap [''--remote-debugging-port=1234''])
     = (example_heap [''--remote-debugging-port=1234''],
        base_options @ [''--remote-debugging-port=1234''])"
  "getOptions example_launcher
       (example_heap [''--js-flags='' @ [single_quote] @ ''--x'' @ [single_quote]])
     = (example_heap [''--js-flags=--x''], base_options @ [''--js-flags=--x''])"
  using sanitize_example isJSFlags_example
  by (simp_all add: getOptions_def Let_def forEach_sanitize_def example_launcher_def
      example_heap_def)

lemma headless_flags_not_port:
  "\<not> isRemoteDebuggingFlag ''--headless''"
  "\<not> isRemoteDebuggingFlag ''--disable-gpu''"
  "\<not> isRemoteDebuggingFlag ''--disable-dev-shm-usage''"
  "\<not> isRemoteDebuggingFlag ''--no-sandbox''"
  by (simp_all add: isRemoteDebuggingFlag_def)

lemma base_options_not_port: "\<not> list_ex isRemoteDebuggingFlag base_options"
  by (simp add: base_options_def isRemoteDebuggingFlag_def)

lemma augment_last:
  "augment fl =
     (if filter isJSFlags fl = [] then None
      else Some (sanitizeJSFlags (last (filter isJSFlags fl)) @ '' '' @ customFlags))"
proof (induction fl rule: rev_induct)
  case Nil
  then show ?case by (simp add: augment_def)
next
  case (snoc x xs)
  have "augment (xs @ [x]) =
          (if isJSFlags x then Some (sanitizeJSFlags x @ '' '' @ customFlags) else augment xs)"
    by (simp only: augment_def fold_append fold_Cons fold_Nil comp_apply id_apply)
  with snoc show ?case by simp
qed

text \<open>
  Claim C6. The headless option builder returns the parent's options followed by
  \<^verbatim>\<open>--headless\<close>, \<^verbatim>\<open>--disable-gpu\<close> and \<^verbatim>\<open>--disable-dev-shm-usage\<close>, then \<^verbatim>\<open>--no-sandbox\<close> under
  WSL, and then \<^verbatim>\<open>--remote-debugging-port=9222\<close> exactly when no flag of the list merged so
  far contains \<^verbatim>\<open>--remote-debugging-port=\<close>; the flags the builder adds never contain it, so
  only the parent's options decide, and when the default is appended it is the last element.
\<close>

theorem getHeadlessOptions_appends:
  assumes "parent h = (h', parentArgs)"
  shows "getHeadlessOptions isWsl parent h =
           (h', parentArgs @ [''--headless'', ''--disable-gpu'', ''--disable-dev-shm-usage'']
                  @ (if isWsl then [''--no-sandbox''] else [])
                  @ (if list_ex isRemoteDebuggingFlag
                          (parentArgs @ [''--headless'', ''--disable-gpu'', ''--disable-dev-shm-usage'']
                             @ (if isWsl then [''--no-sandbox''] else []))
                     then [] else [''--remote-debugging-port=9222'']))
         \<and> (list_ex isRemoteDebuggingFlag
                (parentArgs @ [''--headless'', ''--disable-gpu'', ''--disable-dev-shm-usage'']
                   @ (if isWsl then [''--no-sandbox''] else []))
              \<longleftrightarrow> list_ex isRemoteDebuggingFlag parentArgs)
         \<and> (\<not> list_ex isRemoteDebuggingFlag parentArgs \<longrightarrow>
              last (snd (getHeadlessOptions isWsl parent h)) = ''--remote-debugging-port=9222'')"
  using assms headless_flags_not_port
  by (simp add: getHeadlessOptions_def Let_def list_ex_iff)

text \<open>
  With no user flags the result is the nine base options, the three headless flags and the
  default port at the end; with the user flag \<^verbatim>\<open>--remote-debugging-port=1234\<close> (here under
  WSL) no default port is appended.
\<close>

theorem getHeadlessOptions_appends_witness:
  "getOptions example_launcher (example_heap []) = (example_heap [], base_options)
   \<and> getHeadlessOptions False (getOptions example_launcher) (example_heap [])
       = (example_heap [],
          base_options @ [''--headless'', ''--disable-gpu'', ''--disable-dev-shm-usage'',
                          ''--remote-debugging-port=9222''])
   \<and> \<not> list_ex isRemoteDebuggingFlag base_options
   \<and> last (snd (getHeadlessOptions False (getOptions example_launcher) (example_heap [])))
       = ''--remote-debugging-port=9222''
   \<and> getOptions example_launcher (example_heap [''--remote-debugging-port=1234''])
       = (example_heap [''--remote-debugging-port=1234''],
          base_options @ [''--remote-debugging-port=1234''])
   \<and> getHeadlessOptions True (getOptions example_launcher)
         (example_heap [''--remote-debugging-port=1234''])
       = (example_heap [''--remote-debugging-port=1234''],
          base_options @ [''--remote-debugging-port=1234'', ''--headless'', ''--disable-gpu'',
                          ''--disable-dev-shm-usage'', ''--no-sandbox''])"
proof -
  note p1 = getOptions_example(1)
  note p2 = getOptions_example(2)
  have n: "\<not> list_ex isRemoteDebuggingFlag base_options"
    by (rule base_options_not_port)
  have y: "list_ex isRemoteDebuggingFlag (base_options @ [''--remote-debugging-port=1234''])"
    by (simp add: isRemoteDebuggingFlag_def)
  note t1 = getHeadlessOptions_appends
    [where parent = "getOptions example_launcher" and h = "example_heap []"
       and isWsl = False, OF p1]
  note t2 = getHeadlessOptions_appends
    [where parent = "getOptions example_launcher"
       and h = "example_heap [''--remote-debugging-port=1234'']" and isWsl = True, OF p2]
  from t1 n
  have r1: "getHeadlessOptions False (getOptions example_launcher) (example_heap [])
       = (example_heap [],
          base_options @ [''--headless'', ''--disable-gpu'', ''--disable-dev-shm-usage'',
                          ''--remote-debugging-port=9222''])"
    and l1: "last (snd (getHeadlessOptions False (getOptions example_launcher) (example_heap [])))
       = ''--remote-debugging-port=9222''"
    by simp_all
  from t2 y
  have r2: "getHeadlessOptions True (getOptions example_launcher)
         (example_heap [''--remote-debugging-port=1234''])
       = (example_heap [''--remote-debugging-port=1234''],
          base_options @ [''--remote-debugging-port=1234'', ''--headless'', ''--disable-gpu'',
                          ''--disable-dev-shm-usage'', ''--no-sandbox''])"
    by simp
  from p1 p2 n r1 l1 r2 show ?thesis by simp
qed

text \<open>
  Claim C7. The canary option builder returns the parent's options followed by exactly one
  flag: \<^verbatim>\<open>--js-flags=--nocrankshaft --noopt\<close> when no user flag begins with \<^verbatim>\<open>--js-flags=\<close>,
  and otherwise the last such user flag, sanitized and followed by
  \<^verbatim>\<open> --nocrankshaft --noopt\<close>.
\<close>

theorem getCanaryOptions_appends:
  assumes "parent h = (h', parentArgs)"
    and "fl = (case flags a of Some r \<Rightarrow> arr h r | None \<Rightarrow> [])"
  shows "getCanaryOptions a parent h =
           (h', parentArgs @
                  [if filter isJSFlags fl = [] then ''--js-flags=--nocrankshaft --noopt''
                   else sanitizeJSFlags (last (filter isJSFlags fl)) @ '' --nocrankshaft --noopt''])"
  using assms
  by (simp add: getCanaryOptions_def Let_def augment_last customFlags_def js_flags_prefix_def)

text \<open>
  The two examples of the specification, with the option builder of \<^verbatim>\<open>EdgeBrowser\<close> as the
  parent: it contributes the base options and the user's flags, which it has sanitized.
\<close>

theorem getCanaryOptions_appends_witness:
  "getOptions example_launcher (example_heap []) = (example_heap [], base_options)
   \<and> getCanaryOptions example_args (getOptions example_launcher) (example_heap [])
       = (example_heap [], base_options @ [''--js-flags=--nocrankshaft --noopt''])
   \<and> getOptions example_launcher
         (example_heap [''--js-flags='' @ [single_quote] @ ''--x'' @ [single_quote]])
       = (example_heap [''--js-flags=--x''], base_options @ [''--js-flags=--x''])
   \<and> getCanaryOptions example_args (getOptions example_launcher)
         (example_heap [''--js-flags='' @ [single_quote] @ ''--x'' @ [single_quote]])
       = (example_heap [''--js-flags=--x''],
          base_options @ [''--js-flags=--x'', ''--js-flags=--x --nocrankshaft --noopt''])"
proof -
  let ?q = "''--js-flags='' @ [single_quote] @ ''--x'' @ [single_quote]"
  note p1 = getOptions_example(1)
  note p3 = getOptions_example(3)
  have f1: "[] = (case flags example_args of Some r \<Rightarrow> arr (example_heap []) r | None \<Rightarrow> [])"
    by (simp add: example_args_def example_heap_def)
  have f3: "[?q] = (case flags example_args of Some r \<Rightarrow> arr (example_heap [?q]) r | None \<Rightarrow> [])"
    by (simp add: example_args_def example_heap_def)
  from getCanaryOptions_appends
    [where parent = "getOptions example_launcher" and h = "example_heap []", OF p1 f1]
  have r1: "getCanaryOptions example_args (getOptions example_launcher) (example_heap [])
       = (example_heap [], base_options @ [''--js-flags=--nocrankshaft --noopt''])"
    by simp
  from getCanaryOptions_appends
    [where parent = "getOptions example_launcher" and h = "example_heap [?q]", OF p3 f3]
  have r3: "getCanaryOptions example_args (getOptions example_launcher) (example_heap [?q])
       = (example_heap [''--js-flags=--x''],
          base_options @ [''--js-flags=--x'', ''--js-flags=--x --nocrankshaft --noopt''])"
    using sanitize_example isJSFlags_example by simp
  from p1 p3 r1 r3 show ?thesis by simp
qed

text \<open>
  Claim C10, as amended. The launcher keeps a reference to the caller's flags array, and each
  call of its option builder, for every variant, overwrites in that array the elements that
  begin with \<^verbatim>\<open>--js-flags=\<close> by their sanitized form: after \<open>n\<close> calls such an element has
  been sanitized \<open>n\<close> times. The elements that do not begin with \<^verbatim>\<open>--js-flags=\<close>, the length
  and the order of the array, and every other array are unchanged.
\<close>

theorem getOptions_rewrites_js_flags_in_place:
  assumes "flags a = Some r" and "EdgeBrowser tempDir a h = (h1, b)"
  shows "arr (call_times n (variant_getOptions v isWsl a b) h1) r =
           map (\<lambda>flag. if isJSFlags flag then (sanitizeJSFlags ^^ n) flag else flag) (arr h r)
         \<and> (\<forall>r'. r' \<noteq> r \<longrightarrow> arr (call_times n (variant_getOptions v isWsl a b) h1) r' = arr h r')"
proof -
  from EdgeBrowser_flags [OF assms] have "h1 = h" and "closure_flags b = r" by simp_all
  then show ?thesis
    by (simp add: call_times_arr sanitize_entry_funpow [abs_def])
qed

text \<open>
  Two calls on the caller's array \<^verbatim>\<open>["--js-flags='--x'", "--foo"]\<close>; the array at address
  \<open>1\<close> is another one.
\<close>

theorem getOptions_rewrites_witness:
  "flags example_args = Some 0
   \<and> EdgeBrowser ''/tmp/karma-1'' example_args
        (example_heap [''--js-flags='' @ [single_quote] @ ''--x'' @ [single_quote], ''--foo''])
      = (example_heap [''--js-flags='' @ [single_quote] @ ''--x'' @ [single_quote], ''--foo''],
         example_launcher)
   \<and> arr (call_times 2 (variant_getOptions EdgeCanaryHeadless True example_args example_launcher)
          (example_heap [''--js-flags='' @ [single_quote] @ ''--x'' @ [single_quote], ''--foo'']))
        0 = [''--js-flags=--x'', ''--foo'']
   \<and> arr (call_times 2 (variant_getOptions EdgeCanaryHeadless True example_args example_launcher)
          (example_heap [''--js-flags='' @ [single_quote] @ ''--x'' @ [single_quote], ''--foo'']))
        1 = []"
proof -
  let ?h = "example_heap [''--js-flags='' @ [single_quote] @ ''--x'' @ [single_quote], ''--foo'']"
  have a: "flags example_args = Some 0"
    by (simp add: example_args_def)
  have e: "EdgeBrowser ''/tmp/karma-1'' example_args ?h = (?h, example_launcher)"
    by (rule example_EdgeBrowser)
  note t = getOptions_rewrites_js_flags_in_place
             [OF a e, of 2 EdgeCanaryHeadless True]
  have zero: "arr ?h 0 = [''--js-flags='' @ [single_quote] @ ''--x'' @ [single_quote], ''--foo'']"
    and one: "arr ?h 1 = []"
    by (simp_all add: example_heap_def)
  from conjunct1 [OF t]
  have r0: "arr (call_times 2 (variant_getOptions EdgeCanaryHeadless True example_args example_launcher) ?h) 0
          = [''--js-flags=--x'', ''--foo'']"
    unfolding zero using sanitize_example isJSFlags_example
    by (simp add: numeral_2_eq_2)
  from conjunct2 [OF t]
  have r1: "arr (call_times 2 (variant_getOptions EdgeCanaryHeadless True example_args example_launcher) ?h) 1
          = []"
    using one by simp
  from a e r0 r1 show ?thesis by simp
qed

text \<open>
  Claim C10 as stated fails: one call of \<^verbatim>\<open>_getOptions\<close> changes the element
  \<^verbatim>\<open>--js-flags='--x'\<close> of the caller's array to \<^verbatim>\<open>--js-flags=--x\<close>.
\<close>

theorem getOptions_mutates_counterexample:
  "EdgeBrowser ''/tmp/karma-1'' example_args
        (example_heap [''--js-flags='' @ [single_quote] @ ''--x'' @ [single_quote]])
      = (example_heap [''--js-flags='' @ [single_quote] @ ''--x'' @ [single_quote]],
         example_launcher)
   \<and> arr (example_heap [''--js-flags='' @ [single_quote] @ ''--x'' @ [single_quote]]) 0
       = [''--js-flags='' @ [single_quote] @ ''--x'' @ [single_quote]]
   \<and> arr (fst (variant_getOptions Edge False example_args example_launcher
          (example_heap [''--js-flags='' @ [single_quote] @ ''--x'' @ [single_quote]]))) 0
       = [''--js-flags=--x'']
   \<and> [''--js-flags=--x''] \<noteq> [''--js-flags='' @ [single_quote] @ ''--x'' @ [single_quote]]"
proof -
  let ?h = "example_heap [''--js-flags='' @ [single_quote] @ ''--x'' @ [single_quote]]"
  have e: "EdgeBrowser ''/tmp/karma-1'' example_args ?h = (?h, example_launcher)"
    by (rule example_EdgeBrowser)
  have zero: "arr ?h 0 = [''--js-flags='' @ [single_quote] @ ''--x'' @ [single_quote]]"
    by (simp add: example_heap_def)
  have "arr (fst (variant_getOptions Edge False example_args example_launcher ?h)) 0
          = forEach_sanitize (arr ?h 0)"
    by (simp add: getOptions_def Let_def example_launcher_def)
  also have "\<dots> = [''--js-flags=--x'']"
    unfolding zero using sanitize_example isJSFlags_example
    by (simp add: forEach_sanitize_def)
  finally show ?thesis using e zero by simp
qed


section \<open>Properties of getEdgeExe\<close>

lemma getEdgeExe_loop_none_accessible:
  "\<forall>s \<in> set (strings_of pfxs). \<not> accessSync (path_join s sfx) \<Longrightarrow>
   getEdgeExe_loop path_join accessSync sfx pfxs w =
     (if strings_of pfxs = [] then w else Str (path_join (last (strings_of pfxs)) sfx))"
  by (induction path_join accessSync sfx pfxs w rule: getEdgeExe_loop.induct)
     (auto simp: strings_of_def)

text \<open>
  Claim C8, as amended. On native Windows, when at least one of \<^verbatim>\<open>LOCALAPPDATA\<close>,
  \<^verbatim>\<open>PROGRAMFILES\<close> and \<^verbatim>\<open>PROGRAMFILES(X86)\<close> is set and none of the candidates computed from the
  variables that are set exists on disk, the resolver returns the last computed candidate, the
  one of the last variable that is set, which is a string and not \<^verbatim>\<open>null\<close>; with
  \<^verbatim>\<open>PROGRAMFILES(X86)\<close> set this is the candidate under the 32-bit program files.
\<close>

theorem getEdgeExe_last_candidate:
  assumes "strings_of (prefixes_of env) \<noteq> []"
    and "\<forall>s \<in> set (strings_of (prefixes_of env)).
           \<not> accessSync (path_join s (suffix_of edgeDirName))"
  shows "getEdgeExe win32 env path_join accessSync edgeDirName =
           Str (path_join (last (strings_of (prefixes_of env))) (suffix_of edgeDirName))
         \<and> (\<forall>p. env ''PROGRAMFILES(X86)'' = Some p \<longrightarrow>
               getEdgeExe win32 env path_join accessSync edgeDirName =
                 Str (path_join p (suffix_of edgeDirName)))"
proof -
  have r: "getEdgeExe win32 env path_join accessSync edgeDirName =
           Str (path_join (last (strings_of (prefixes_of env))) (suffix_of edgeDirName))"
    using assms
      getEdgeExe_loop_none_accessible
        [where accessSync = accessSync and path_join = path_join
           and sfx = "suffix_of edgeDirName" and pfxs = "prefixes_of env" and w = Undefined]
    by (simp add: getEdgeExe_def)
  have "last (strings_of (prefixes_of env)) = p" if "env ''PROGRAMFILES(X86)'' = Some p" for p
    using that by (simp add: strings_of_def prefixes_of_def env_get_def)
  with r show ?thesis by simp
qed

text \<open>
  Without \<^verbatim>\<open>PROGRAMFILES(X86)\<close> the result is the candidate under \<^verbatim>\<open>PROGRAMFILES\<close>, with it the
  one under \<^verbatim>\<open>PROGRAMFILES(X86)\<close>.
\<close>

theorem getEdgeExe_last_candidate_witness:
  "strings_of (prefixes_of env32) = [''C:/Users/karma/AppData/Local'', ''C:/Program Files'']
   \<and> \<not> nothing_exists (example_join ''C:/Users/karma/AppData/Local'' (suffix_of ''Edge''))
   \<and> \<not> nothing_exists (example_join ''C:/Program Files'' (suffix_of ''Edge''))
   \<and> getEdgeExe win32 env32 example_join nothing_exists ''Edge''
       = Str (''C:/Program Files'' @ [backslash] @ ''Microsoft'' @ [backslash] @ ''Edge''
                @ [backslash] @ ''Application'' @ [backslash] @ ''msedge.exe'')
   \<and> env64 ''PROGRAMFILES(X86)'' = Some ''C:/Program Files (x86)''
   \<and> getEdgeExe win32 env64 example_join nothing_exists ''Edge''
       = Str (''C:/Program Files (x86)'' @ [backslash] @ ''Microsoft'' @ [backslash] @ ''Edge''
                @ [backslash] @ ''Application'' @ [backslash] @ ''msedge.exe'')"
proof -
  have s32: "strings_of (prefixes_of env32) = [''C:/Users/karma/AppData/Local'', ''C:/Program Files'']"
    by (simp add: strings_of_def prefixes_of_def env_get_def env32_def)
  have s64: "strings_of (prefixes_of env64) =
               [''C:/Users/karma/AppData/Local'', ''C:/Program Files'', ''C:/Program Files (x86)'']"
    by (simp add: strings_of_def prefixes_of_def env_get_def env32_def env64_def)
  have x86: "env64 ''PROGRAMFILES(X86)'' = Some ''C:/Program Files (x86)''"
    by (simp add: env64_def)
  have n: "\<not> nothing_exists c" for c
    by (simp add: nothing_exists_def)
  have ne32: "strings_of (prefixes_of env32) \<noteq> []" using s32 by simp
  have ne64: "strings_of (prefixes_of env64) \<noteq> []" using s64 by simp
  have a32: "\<forall>s \<in> set (strings_of (prefixes_of env32)).
               \<not> nothing_exists (example_join s (suffix_of ''Edge''))"
    and a64: "\<forall>s \<in> set (strings_of (prefixes_of env64)).
               \<not> nothing_exists (example_join s (suffix_of ''Edge''))"
    using n by simp_all
  note t32 = getEdgeExe_last_candidate
    [where env = env32 and accessSync = nothing_exists and path_join = example_join
       and edgeDirName = "''Edge''", OF ne32 a32]
  note t64 = getEdgeExe_last_candidate
    [where env = env64 and accessSync = nothing_exists and path_join = example_join
       and edgeDirName = "''Edge''", OF ne64 a64]
  from conjunct1 [OF t32]
  have r32: "getEdgeExe win32 env32 example_join nothing_exists ''Edge''
       = Str (''C:/Program Files'' @ [backslash] @ ''Microsoft'' @ [backslash] @ ''Edge''
                @ [backslash] @ ''Application'' @ [backslash] @ ''msedge.exe'')"
    unfolding s32 by (simp add: example_join_def suffix_of_def)
  from conjunct2 [OF t64] x86
  have r64: "getEdgeExe win32 env64 example_join nothing_exists ''Edge''
       = Str (''C:/Program Files (x86)'' @ [backslash] @ ''Microsoft'' @ [backslash] @ ''Edge''
                @ [backslash] @ ''Application'' @ [backslash] @ ''msedge.exe'')"
    by (simp add: example_join_def suffix_of_def)
  from s32 n r32 x86 r64 show ?thesis by simp
qed

text \<open>
  Claim C8 as stated fails: when none of the three variables is set, every \<^verbatim>\<open>path.join\<close>
  throws, no candidate is ever computed and the resolver returns \<^verbatim>\<open>undefined\<close>.
\<close>

theorem getEdgeExe_undefined_counterexample:
  "getEdgeExe win32 Map.empty example_join nothing_exists ''Edge'' = Undefined"
  by (simp add: getEdgeExe_def prefixes_of_def env_get_def)

section \<open>Properties of the launch decision\<close>

lemma start_cases:
  "start isWsl DEFAULT_CMD_linux which_sync env execSync_throws command getOpts url b h =
     (if isWsl \<and> linux_absent DEFAULT_CMD_linux which_sync then
        useWindowsWSL execSync_throws getOpts url b h
      else if isWsl \<and> ''--headless'' \<notin> set (snd (getOpts h))
                \<and> \<not> truthy (env_get env ''DISPLAY'') then
        useWindowsWSL execSync_throws getOpts url b (fst (getOpts h))
      else if isWsl then useNormal getOpts DEFAULT_CMD_linux url b (fst (getOpts h))
      else useNormal getOpts command url b h)"
  by (simp add: start_def split: prod.splits)

lemma truthy_env_get:
  "truthy (env_get env name) \<longleftrightarrow> \<not> (env name = None \<or> env name = Some [])"
  by (simp add: env_get_def split: option.splits)

lemma useWindowsWSL_result:
  "useWindowsWSL execSync_throws getOpts url b h =
     (if execSync_throws then h else fst (getOpts h), b\<lparr>windowsUsed := True\<rparr>,
      if execSync_throws then Threw else SpawnBash url (snd (getOpts h)))"
  by (simp add: useWindowsWSL_def Let_def split: prod.splits)

lemma useNormal_result:
  "useNormal getOpts command url b h =
     (fst (getOpts h), b,
      ExecCommand command ([url, ''--user-data-dir='' @ userDataDir b] @ snd (getOpts h)))"
  by (simp add: useNormal_def Let_def split: prod.splits)

lemma no_headless_in_base: "''--headless'' \<notin> set base_options"
  by (simp add: base_options_def)

text \<open>
  Claim C1, as amended. A launch takes the Windows bridge if and only if it runs under WSL
  and either the native Linux binary is absent, or the built options do not contain
  \<^verbatim>\<open>--headless\<close> and \<^verbatim>\<open>DISPLAY\<close> is unset or empty (the test is \<^verbatim>\<open>!process.env.DISPLAY\<close>).
  The bridge sets \<^verbatim>\<open>windowsUsed\<close> and spawns the shell, unless the path translation throws;
  every other launch under WSL executes the Linux binary, and every launch outside WSL
  executes the command of the host, with the URL, the user data directory and the options.
\<close>

theorem start_bridge_decision:
  assumes "start isWsl DEFAULT_CMD_linux which_sync env execSync_throws command getOpts url b h
             = (h', b', out)"
  shows "(is_bridge out \<longleftrightarrow>
            isWsl \<and> (linux_absent DEFAULT_CMD_linux which_sync
                     \<or> (''--headless'' \<notin> set (snd (getOpts h))
                         \<and> (env ''DISPLAY'' = None \<or> env ''DISPLAY'' = Some []))))
         \<and> (is_bridge out \<longrightarrow>
              windowsUsed b'
              \<and> out = (if execSync_throws then Threw
                       else SpawnBash url
                              (snd (getOpts (if linux_absent DEFAULT_CMD_linux which_sync then h
                                             else fst (getOpts h))))))
         \<and> (\<not> is_bridge out \<longrightarrow>
              b' = b
              \<and> out = ExecCommand (if isWsl then DEFAULT_CMD_linux else command)
                        ([url, ''--user-data-dir='' @ userDataDir b]
                           @ snd (getOpts (if isWsl then fst (getOpts h) else h))))"
  using assms
  unfolding start_cases truthy_env_get useWindowsWSL_result useNormal_result
  by (auto split: if_splits)

text \<open>
  Under WSL with the binary present and \<^verbatim>\<open>DISPLAY=:0\<close> the launch is native; with the binary
  missing it takes the bridge; outside WSL it is native.
\<close>

theorem start_bridge_decision_witness:
  "\<not> linux_absent (Str ''msedge'') which_found
   \<and> [''DISPLAY'' \<mapsto> '':0''] ''DISPLAY'' = Some '':0''
   \<and> start True (Str ''msedge'') which_found [''DISPLAY'' \<mapsto> '':0''] False (Str ''msedge'')
        (getOptions example_launcher) ''http://localhost:9876/'' example_launcher (example_heap [])
      = (example_heap [], example_launcher,
         ExecCommand (Str ''msedge'')
           ([''http://localhost:9876/'', ''--user-data-dir=/tmp/karma-1''] @ base_options))
   \<and> linux_absent (Str ''msedge'') which_missing
   \<and> start True (Str ''msedge'') which_missing [''DISPLAY'' \<mapsto> '':0''] False (Str ''msedge'')
        (getOptions example_launcher) ''http://localhost:9876/'' example_launcher (example_heap [])
      = (example_heap [], example_launcher\<lparr>windowsUsed := True\<rparr>,
         SpawnBash ''http://localhost:9876/'' base_options)
   \<and> is_bridge (SpawnBash ''http://localhost:9876/'' base_options)
   \<and> windowsUsed (example_launcher\<lparr>windowsUsed := True\<rparr>)
   \<and> start False Null which_missing Map.empty False (Str ''/opt/edge/msedge'')
        (getOptions example_launcher) ''http://localhost:9876/'' example_launcher (example_heap [])
      = (example_heap [], example_launcher,
         ExecCommand (Str ''/opt/edge/msedge'')
           ([''http://localhost:9876/'', ''--user-data-dir=/tmp/karma-1''] @ base_options))"
proof -
  let ?url = "''http://localhost:9876/''"
  have present: "\<not> linux_absent (Str ''msedge'') which_found"
    and absent: "linux_absent (Str ''msedge'') which_missing"
    by (simp_all add: linux_absent_def which_found_def which_missing_def)
  have disp: "[''DISPLAY'' \<mapsto> '':0''] ''DISPLAY'' = Some '':0''"
    by simp
  have s1: "start True (Str ''msedge'') which_found [''DISPLAY'' \<mapsto> '':0''] False (Str ''msedge'')
        (getOptions example_launcher) ?url example_launcher (example_heap [])
      = (example_heap [], example_launcher,
         ExecCommand (Str ''msedge'') ([?url, ''--user-data-dir=/tmp/karma-1''] @ base_options))"
    using present no_headless_in_base
    by (simp add: start_def getOptions_example(1) useNormal_def env_get_def)
       (simp add: example_launcher_def)
  have s2: "start True (Str ''msedge'') which_missing [''DISPLAY'' \<mapsto> '':0''] False (Str ''msedge'')
        (getOptions example_launcher) ?url example_launcher (example_heap [])
      = (example_heap [], example_launcher\<lparr>windowsUsed := True\<rparr>, SpawnBash ?url base_options)"
    using absent
    by (simp add: start_def getOptions_example(1) useWindowsWSL_def)
  have s3: "start False Null which_missing Map.empty False (Str ''/opt/edge/msedge'')
        (getOptions example_launcher) ?url example_launcher (example_heap [])
      = (example_heap [], example_launcher,
         ExecCommand (Str ''/opt/edge/msedge'')
           ([?url, ''--user-data-dir=/tmp/karma-1''] @ base_options))"
    by (simp add: start_def getOptions_example(1) useNormal_def)
       (simp add: example_launcher_def)
  have used: "is_bridge (SpawnBash ?url base_options)
              \<and> windowsUsed (example_launcher\<lparr>windowsUsed := True\<rparr>)"
    using start_bridge_decision [OF s2] absent by simp
  from start_bridge_decision [OF s1] start_bridge_decision [OF s3]
    present disp s1 absent s2 used s3
  show ?thesis by simp
qed

text \<open>
  Claim C1 as stated fails when \<^verbatim>\<open>DISPLAY\<close> is set to the empty string: the binary is
  present, the variable is set, and the launch still takes the bridge.
\<close>

theorem start_empty_display_counterexample:
  "\<not> linux_absent (Str ''msedge'') which_found
   \<and> ''--headless'' \<notin> set (snd (getOptions example_launcher (example_heap [])))
   \<and> [''DISPLAY'' \<mapsto> []] ''DISPLAY'' = Some []
   \<and> start True (Str ''msedge'') which_found [''DISPLAY'' \<mapsto> []] False (Str ''msedge'')
        (getOptions example_launcher) ''http://localhost:9876/'' example_launcher (example_heap [])
      = (example_heap [], example_launcher\<lparr>windowsUsed := True\<rparr>,
         SpawnBash ''http://localhost:9876/'' base_options)"
proof -
  have present: "\<not> linux_absent (Str ''msedge'') which_found"
    by (simp add: linux_absent_def which_found_def)
  have opts: "''--headless'' \<notin> set (snd (getOptions example_launcher (example_heap [])))"
    using no_headless_in_base by (simp add: getOptions_example(1))
  have "start True (Str ''msedge'') which_found [''DISPLAY'' \<mapsto> []] False (Str ''msedge'')
        (getOptions example_launcher) ''http://localhost:9876/'' example_launcher (example_heap [])
      = (example_heap [], example_launcher\<lparr>windowsUsed := True\<rparr>,
         SpawnBash ''http://localhost:9876/'' base_options)"
    using present no_headless_in_base
    by (simp add: start_def getOptions_example(1) useWindowsWSL_def env_get_def)
  with present opts show ?thesis by simp
qed

section \<open>Properties of the stderr handler\<close>

text \<open>Texts and their buffers: ASCII bytes stay where they are, so the marker is found in a
  text only where it is in the buffer.\<close>

lemma ustr_append: "ustr (a @ b) = ustr a @ ustr b"
  by (simp add: ustr_def)

lemma marker_Cons: "marker = 0x42 # tl marker"
  by (simp add: marker_def marker_bytes_def ustr_def)

lemma marker_bytes_Cons: "marker_bytes = CHR ''B'' # tl marker_bytes"
  by (simp add: marker_bytes_def)

lemma text_of_Nil: "text_of [] us \<Longrightarrow> us = []"
  by (erule text_of.cases) simp_all

lemma not_prefix_marker_high: "0x80 \<le> u \<Longrightarrow> \<not> prefix marker (u # s)"
  by (subst marker_Cons) simp

lemma text_of_ascii_head:
  assumes "text_of (c # bs) T" and "of_char c < (0x80::nat)"
  obtains us where "T = of_char c # us" and "text_of bs us"
  using assms(1)
proof (cases rule: text_of.cases)
  case (text_ascii us)
  then show ?thesis using that by simp
next
  case (text_other r w bs' us)
  then have "hd r = c" by (cases r) simp_all
  with text_other(3,4) assms(2) show ?thesis
    by (cases r) simp_all
qed

lemma text_of_ascii_block:
  "text_of (x @ C) T \<Longrightarrow> list_all (\<lambda>c. of_char c < (0x80::nat)) x \<Longrightarrow>
   \<exists>V. T = ustr x @ V \<and> text_of C V"
proof (induction x arbitrary: T)
  case Nil
  then show ?case by (simp add: ustr_def)
next
  case (Cons d x)
  from Cons.prems have d: "of_char d < (0x80::nat)" and x: "list_all (\<lambda>c. of_char c < (0x80::nat)) x"
    by simp_all
  from Cons.prems(1) have "text_of (d # (x @ C)) T" by simp
  then obtain us where T: "T = of_char d # us" and us: "text_of (x @ C) us"
    using d by (rule text_of_ascii_head)
  from Cons.IH [OF us x] obtain V where "us = ustr x @ V" and "text_of C V" by blast
  with T show ?case by (auto simp: ustr_def)
qed

lemma text_of_high_head:
  assumes "text_of Y T" and "T = u # T'" and "u < 0x80"
  obtains c bs where "Y = c # bs" and "of_char c = u" and "text_of bs T'"
  using assms(1)
proof (cases rule: text_of.cases)
  case text_Nil
  with assms(2) show ?thesis by simp
next
  case (text_ascii c bs us)
  with assms(2) that show ?thesis by simp
next
  case (text_other r w bs us)
  show ?thesis
  proof (cases w)
    case Nil
    with text_other have "bs = []" by simp
    with text_other(7) have "us = []" by (auto dest: text_of_Nil)
    with Nil text_other(2) assms(2) show ?thesis by simp
  next
    case (Cons v w')
    with text_other(2) assms(2) have "v = u" by simp
    with Cons text_other(5) assms(3) show ?thesis by simp
  qed
qed

lemma text_of_prefix_ascii:
  "text_of Y T \<Longrightarrow> list_all (\<lambda>c. of_char c < (0x80::nat)) m \<Longrightarrow> prefix (ustr m) T \<Longrightarrow> prefix m Y"
proof (induction m arbitrary: Y T)
  case Nil
  then show ?case by simp
next
  case (Cons d m)
  from Cons.prems(3) obtain T' where T: "T = of_char d # T'" and p: "prefix (ustr m) T'"
    by (cases T) (auto simp: ustr_def)
  from Cons.prems(2) have d: "of_char d < (0x80::nat)" and m: "list_all (\<lambda>c. of_char c < (0x80::nat)) m"
    by simp_all
  from Cons.prems(1) T d obtain c bs where Y: "Y = c # bs" and c: "of_char c = (of_char d :: nat)"
    and bs: "text_of bs T'"
    by (rule text_of_high_head)
  from c have "c = d" by (simp only: of_char_eq_iff)
  with Y Cons.IH [OF bs m p] show ?case by simp
qed

lemma ascii_marker_bytes: "list_all (\<lambda>c. of_char c < (0x80::nat)) marker_bytes"
  by (simp add: marker_bytes_def)

lemma text_of_prefix_marker: "text_of Y T \<Longrightarrow> prefix marker T \<Longrightarrow> prefix marker_bytes Y"
  unfolding marker_def by (rule text_of_prefix_ascii [OF _ ascii_marker_bytes])

lemma sublist_marker_high:
  "list_all (\<lambda>u. 0x80 \<le> u) w \<Longrightarrow> sublist marker (w @ us) \<Longrightarrow> sublist marker us"
proof (induction w)
  case Nil
  then show ?case by simp
next
  case (Cons v w)
  from Cons.prems(1) have v: "0x80 \<le> v" and w: "list_all (\<lambda>u. 0x80 \<le> u) w" by simp_all
  from Cons.prems(2) have "prefix marker (v # w @ us) \<or> sublist marker (w @ us)"
    by (simp only: append_Cons sublist_Cons_right)
  with not_prefix_marker_high [OF v] have "sublist marker (w @ us)" by blast
  with Cons.IH [OF w] show ?case .
qed

lemma text_of_sublist_marker:
  "text_of Y T \<Longrightarrow> sublist marker T \<Longrightarrow> sublist marker_bytes Y"
proof (induction rule: text_of.induct)
  case text_Nil
  then show ?case by (simp add: marker_def marker_bytes_def ustr_def)
next
  case (text_ascii c bs us)
  from text_ascii.prems consider "prefix marker (of_char c # us)" | "sublist marker us"
    by (auto simp: sublist_Cons_right)
  then show ?case
  proof cases
    case 1
    have "text_of (c # bs) (of_char c # us)"
      using text_ascii.hyps by (rule text_of.text_ascii)
    from text_of_prefix_marker [OF this 1] show ?thesis
      by (rule prefix_imp_sublist)
  next
    case 2
    with text_ascii.IH show ?thesis by (simp add: sublist_Cons_right)
  qed
next
  case (text_other r w bs us)
  from sublist_marker_high [OF text_other.hyps(3) text_other.prems] text_other.IH
  have "sublist marker_bytes bs" by simp
  then obtain ps ss where "bs = ps @ marker_bytes @ ss" by (auto simp: sublist_def)
  then have "r @ bs = (r @ ps) @ marker_bytes @ ss" by simp
  then show ?case unfolding sublist_def by blast
qed

lemma sentinel_here_no_prefix: "\<not> prefix marker s \<Longrightarrow> sentinel_here s = None"
  by (simp add: sentinel_here_def)

lemma no_marker_no_match: "\<not> sublist marker T \<Longrightarrow> sentinel_match T = None"
proof (induction T)
  case Nil
  then show ?case by simp
next
  case (Cons u T)
  from Cons.prems have "\<not> prefix marker (u # T)" and "\<not> sublist marker T"
    by (simp_all add: sublist_Cons_right)
  with Cons.IH show ?case by (simp add: sentinel_here_no_prefix)
qed

lemma sentinel_match_drop:
  "\<forall>i < length U. \<not> prefix marker (drop i (U @ S)) \<Longrightarrow> sentinel_match (U @ S) = sentinel_match S"
proof (induction U)
  case Nil
  then show ?case by simp
next
  case (Cons u U)
  from Cons.prems have "\<not> prefix marker (u # U @ S)" by fastforce
  then have here: "sentinel_here (u # U @ S) = None" by (rule sentinel_here_no_prefix)
  have "\<forall>i < length U. \<not> prefix marker (drop i (U @ S))"
  proof (intro allI impI)
    fix i assume "i < length U"
    then have "Suc i < length (u # U)" by simp
    with Cons.prems have "\<not> prefix marker (drop (Suc i) ((u # U) @ S))" by blast
    then show "\<not> prefix marker (drop i (U @ S))" by simp
  qed
  with Cons.IH here show ?case by simp
qed

lemma text_of_no_digit_first:
  assumes "text_of C V" and "no_digit_first C"
  shows "V = [] \<or> \<not> is_digit (hd V)"
  using assms(1)
proof (cases rule: text_of.cases)
  case text_Nil
  then show ?thesis by simp
next
  case (text_ascii c bs us)
  with assms(2) show ?thesis by (simp add: no_digit_first_def)
next
  case (text_other r w bs us)
  show ?thesis
  proof (cases w)
    case Nil
    with text_other have "bs = []" by simp
    with text_other(7) have "us = []" by (auto dest: text_of_Nil)
    with Nil text_other(2) show ?thesis by simp
  next
    case (Cons v w')
    with text_other(5) have "0x80 \<le> v" by simp
    then have "\<not> is_digit v" by (simp add: is_digit_def)
    with Cons text_other(2) show ?thesis by simp
  qed
qed

lemma high_run_before_marker:
  assumes eq: "r @ bs = A @ marker_bytes @ R"
    and r: "list_all (\<lambda>c. (0x80::nat) \<le> of_char c) r"
  obtains A' where "A = r @ A'" and "bs = A' @ marker_bytes @ R"
proof -
  from eq consider us where "r = A @ us" "us @ bs = marker_bytes @ R"
    | us where "r @ us = A" "bs = us @ marker_bytes @ R"
    by (auto simp: append_eq_append_conv2)
  then show ?thesis
  proof cases
    case 1
    show ?thesis
    proof (cases us)
      case Nil
      with 1 that [of "[]"] show ?thesis by simp
    next
      case (Cons u us')
      with 1(2) have "u = CHR ''B''" by (subst (asm) marker_bytes_Cons) simp
      with Cons 1(1) r show ?thesis by simp
    qed
  next
    case 2
    with that [of us] show ?thesis by simp
  qed
qed

lemma text_of_before_marker:
  "text_of Y T \<Longrightarrow> Y = A @ marker_bytes @ R \<Longrightarrow>
   \<forall>i < length A. \<not> prefix marker_bytes (drop i Y) \<Longrightarrow>
   \<exists>U V. T = U @ marker @ V \<and> text_of R V \<and> (\<forall>i < length U. \<not> prefix marker (drop i T))"
proof (induction arbitrary: A rule: text_of.induct)
  case text_Nil
  then show ?case by (simp add: marker_bytes_def)
next
  case (text_ascii c bs us)
  have whole: "text_of (c # bs) (of_char c # us)"
    using text_ascii.hyps by (rule text_of.text_ascii)
  show ?case
  proof (cases A)
    case Nil
    with text_ascii.prems(1) have "text_of (marker_bytes @ R) (of_char c # us)"
      using whole by simp
    from text_of_ascii_block [OF this ascii_marker_bytes]
    obtain V where "of_char c # us = marker @ V" and "text_of R V"
      by (auto simp: marker_def)
    then have "of_char c # us = [] @ marker @ V \<and> text_of R V
               \<and> (\<forall>i < length ([]::ustring). \<not> prefix marker (drop i (of_char c # us)))"
      by simp
    then show ?thesis by blast
  next
    case (Cons a A')
    with text_ascii.prems(1) have bs: "bs = A' @ marker_bytes @ R" by simp
    have cond: "\<forall>i < length A'. \<not> prefix marker_bytes (drop i bs)"
    proof (intro allI impI)
      fix i assume "i < length A'"
      with Cons have "Suc i < length A" by simp
      with text_ascii.prems(2) have "\<not> prefix marker_bytes (drop (Suc i) (c # bs))" by blast
      then show "\<not> prefix marker_bytes (drop i bs)" by simp
    qed
    from text_ascii.IH [OF bs cond] obtain U V where us: "us = U @ marker @ V" and V: "text_of R V"
      and no: "\<forall>i < length U. \<not> prefix marker (drop i us)" by blast
    have first: "\<not> prefix marker (of_char c # us)"
    proof
      assume "prefix marker (of_char c # us)"
      from text_of_prefix_marker [OF whole this] have "prefix marker_bytes (drop 0 (c # bs))"
        by simp
      moreover from Cons have "0 < length A" by simp
      ultimately show False using text_ascii.prems(2) by blast
    qed
    have "\<forall>i < length (of_char c # U). \<not> prefix marker (drop i (of_char c # us))"
    proof (intro allI impI)
      fix i assume i: "i < length (of_char c # U)"
      show "\<not> prefix marker (drop i (of_char c # us))"
      proof (cases i)
        case 0
        with first show ?thesis by simp
      next
        case (Suc j)
        with i no show ?thesis by simp
      qed
    qed
    with us V have "of_char c # us = (of_char c # U) @ marker @ V \<and> text_of R V
        \<and> (\<forall>i < length (of_char c # U). \<not> prefix marker (drop i (of_char c # us)))"
      by simp
    then show ?thesis by blast
  qed
next
  case (text_other r w bs us)
  from text_other.prems(1) text_other.hyps(2)
  obtain A' where A: "A = r @ A'" and bs: "bs = A' @ marker_bytes @ R"
    by (rule high_run_before_marker)
  from bs have "bs \<noteq> []" by (simp add: marker_bytes_def)
  with text_other.hyps(4) have w: "w \<noteq> []" by simp
  have cond: "\<forall>i < length A'. \<not> prefix marker_bytes (drop i bs)"
  proof (intro allI impI)
    fix i assume "i < length A'"
    with A have "length r + i < length A" by simp
    with text_other.prems(2) have "\<not> prefix marker_bytes (drop (length r + i) (r @ bs))" by blast
    then show "\<not> prefix marker_bytes (drop i bs)" by simp
  qed
  from text_other.IH [OF bs cond] obtain U V where us: "us = U @ marker @ V" and V: "text_of R V"
    and no: "\<forall>i < length U. \<not> prefix marker (drop i us)" by blast
  have "\<forall>i < length (w @ U). \<not> prefix marker (drop i (w @ us))"
  proof (intro allI impI)
    fix i assume i: "i < length (w @ U)"
    show "\<not> prefix marker (drop i (w @ us))"
    proof (cases "i < length w")
      case True
      then obtain v w' where d: "drop i w = v # w'" by (cases "drop i w") simp_all
      then have "v \<in> set w" by (metis in_set_dropD list.set_intros(1))
      with text_other.hyps(3) have "0x80 \<le> v" by (simp add: list_all_iff)
      from not_prefix_marker_high [OF this] d True show ?thesis by simp
    next
      case False
      with i have "i - length w < length U" by simp
      with no have "\<not> prefix marker (drop (i - length w) us)" by blast
      with False show ?thesis by simp
    qed
  qed
  with us V have "w @ us = (w @ U) @ marker @ V \<and> text_of R V
      \<and> (\<forall>i < length (w @ U). \<not> prefix marker (drop i (w @ us)))"
    by simp
  then show ?case by blast
qed

text \<open>Occurrences of the marker in a stream and in its chunks.\<close>

lemma occurrences_set:
  "set (occurrences pat s) = {i. i \<le> length s \<and> prefix pat (drop i s)}"
proof (induction s)
  case Nil
  then show ?case by auto
next
  case (Cons c s)
  have "{i. i \<le> length (c # s) \<and> prefix pat (drop i (c # s))}
        = (if prefix pat (c # s) then {0} else {}) \<union> Suc ` {i. i \<le> length s \<and> prefix pat (drop i s)}"
  proof (intro set_eqI iffI)
    fix i assume "i \<in> {i. i \<le> length (c # s) \<and> prefix pat (drop i (c # s))}"
    then show "i \<in> (if prefix pat (c # s) then {0} else {}) \<union> Suc ` {i. i \<le> length s \<and> prefix pat (drop i s)}"
      by (cases i) simp_all
  next
    fix i assume "i \<in> (if prefix pat (c # s) then {0} else {}) \<union> Suc ` {i. i \<le> length s \<and> prefix pat (drop i s)}"
    then show "i \<in> {i. i \<le> length (c # s) \<and> prefix pat (drop i (c # s))}"
      by (auto split: if_splits)
  qed
  with Cons show ?case by simp
qed

lemma occurrences_single:
  assumes "occurrences pat s = [k]" and "prefix pat (drop i s)" and "i \<le> length s"
  shows "i = k"
proof -
  from assms(2,3) have "i \<in> set (occurrences pat s)" by (simp add: occurrences_set)
  with assms(1) show ?thesis by simp
qed

lemma drop_length_append: "drop (length xs) (xs @ ys) = ys"
  by simp

lemma sublist_position:
  assumes "sublist pat x"
  obtains u v where "x = u @ pat @ v"
  using assms by (auto simp: sublist_def)

lemma no_marker_in_other_chunk:
  assumes once: "occurrences marker_bytes (F @ x @ G) = [k]"
    and out: "k < length F \<or> length F + length x < k + length marker_bytes"
  shows "\<not> sublist marker_bytes x"
proof
  assume "sublist marker_bytes x"
  then obtain u v where x: "x = u @ marker_bytes @ v" by (rule sublist_position)
  have "F @ x @ G = (F @ u) @ marker_bytes @ v @ G"
    unfolding x by simp
  then have "drop (length (F @ u)) (F @ x @ G) = drop (length (F @ u)) ((F @ u) @ marker_bytes @ v @ G)"
    by (rule arg_cong)
  also have "\<dots> = marker_bytes @ v @ G"
    by (rule drop_length_append)
  finally have "drop (length (F @ u)) (F @ x @ G) = marker_bytes @ v @ G" .
  then have "prefix marker_bytes (drop (length (F @ u)) (F @ x @ G))" by simp
  moreover have "length (F @ u) \<le> length (F @ x @ G)" unfolding x by simp
  ultimately have "length (F @ u) = k" by (rule occurrences_single [OF once])
  with out x show False by simp
qed

text \<open>The pattern on the text of a buffer, and the listener on a buffer.\<close>

lemma not_space_d: "\<not> is_space (of_char CHR ''d'')"
  by (simp add: is_space_def)

lemma sentinel_here_line:
  assumes "ws \<noteq> []" and "\<forall>u \<in> set ws. is_space u"
    and "ds \<noteq> []" and "\<forall>u \<in> set ds. is_digit u"
    and "rest = [] \<or> \<not> is_digit (hd rest)"
  shows "sentinel_here (marker @ ws @ debug_me @ ds @ rest) = Some ds"
proof -
  have dm: "debug_me = of_char CHR ''d'' # tl debug_me"
    by (simp add: debug_me_def ustr_def)
  have tw: "takeWhile is_space (ws @ debug_me @ ds @ rest) = ws"
    using assms(2) not_space_d
    by (subst dm) (simp add: takeWhile_append2 del: of_char_Char)
  have dw: "dropWhile is_space (ws @ debug_me @ ds @ rest) = debug_me @ ds @ rest"
    using assms(2) not_space_d
    by (subst dm, subst (2) dm) (simp add: dropWhile_append2 del: of_char_Char)
  have td: "takeWhile is_digit (ds @ rest) = ds"
    using assms(4,5) by (cases rest) (simp_all add: takeWhile_append2)
  show ?thesis
    using assms(1,3) by (simp add: sentinel_here_def Let_def tw dw td)
qed

lemma sentinel_match_here:
  assumes "sentinel_here s = Some ds"
  shows "sentinel_match s = Some ds"
proof (cases s)
  case Nil
  with assms show ?thesis by (simp add: sentinel_here_def marker_def marker_bytes_def ustr_def)
next
  case (Cons u s')
  with assms show ?thesis by simp
qed

lemma digits_ustr:
  assumes "digits pid"
  shows "ustr pid \<noteq> []" and "\<forall>u \<in> set (ustr pid). is_digit u"
    and "list_all (\<lambda>c. of_char c < (0x80::nat)) pid"
proof -
  from assms show "ustr pid \<noteq> []" by (simp add: digits_def ustr_def)
  from assms show "\<forall>u \<in> set (ustr pid). is_digit u"
    by (auto simp: digits_def ustr_def list_all_iff)
  from assms have "\<forall>c \<in> set pid. is_digit (of_char c)" by (simp add: digits_def list_all_iff)
  then have "\<forall>c \<in> set pid. of_char c < (0x80::nat)" by (auto simp: is_digit_def)
  then show "list_all (\<lambda>c. of_char c < (0x80::nat)) pid" by (simp add: list_all_iff)
qed

lemma no_digit_first_append: "no_digit_first (c @ q) \<Longrightarrow> no_digit_first c"
  by (cases c) (simp_all add: no_digit_first_def)

text \<open>The text of a buffer that holds the whole line, and the marker nowhere before it.\<close>

lemma match_of_line_chunk:
  assumes T: "text_of (a @ sentinel_line pid @ c) T"
    and pid: "digits pid"
    and c: "no_digit_first c"
    and first: "\<forall>i < length a. \<not> prefix marker_bytes (drop i (a @ sentinel_line pid @ c))"
  shows "sentinel_match T = Some (ustr pid)"
proof -
  let ?R = "('' debug me @ '' @ pid) @ c"
  have Y: "a @ sentinel_line pid @ c = a @ marker_bytes @ ?R"
    by (simp add: sentinel_line_def)
  from text_of_before_marker [OF T Y first]
  obtain U V where TU: "T = U @ marker @ V" and V: "text_of ?R V"
    and no: "\<forall>i < length U. \<not> prefix marker (drop i T)" by blast
  have "list_all (\<lambda>c. of_char c < (0x80::nat)) ('' debug me @ '' @ pid)"
    using digits_ustr(3) [OF pid] by simp
  from text_of_ascii_block [OF V this]
  obtain V' where V': "V = ustr ('' debug me @ '' @ pid) @ V'" and c': "text_of c V'" by blast
  from text_of_no_digit_first [OF c' c] have rest: "V' = [] \<or> \<not> is_digit (hd V')" .
  have "ustr ('' debug me @ '' @ pid) = [0x20] @ debug_me @ ustr pid"
    by (simp add: ustr_def debug_me_def)
  with V' have V2: "V = [0x20] @ debug_me @ ustr pid @ V'" by simp
  have sp: "\<forall>u \<in> set [0x20::nat]. is_space u" by (simp add: is_space_def)
  have "sentinel_here (marker @ [0x20] @ debug_me @ ustr pid @ V') = Some (ustr pid)"
    by (rule sentinel_here_line [OF _ sp digits_ustr(1,2) [OF pid] rest]) simp
  then have "sentinel_match (marker @ V) = Some (ustr pid)"
    unfolding V2 by (rule sentinel_match_here)
  moreover from no have "sentinel_match (U @ marker @ V) = sentinel_match (marker @ V)"
    unfolding TU by (rule sentinel_match_drop)
  ultimately show ?thesis by (simp only: TU)
qed

lemma on_data_match:
  "sentinel_match (decoder buf) = Some ds \<Longrightarrow>
   on_data decoder parseInt (BufferChunk buf) v = Some (parseInt ds)"
  by (simp add: on_data_def errString_def)

lemma on_data_no_marker:
  assumes "text_of buf (decoder buf)" and "\<not> sublist marker_bytes buf"
  shows "on_data decoder parseInt (BufferChunk buf) v = v"
proof -
  from assms have "\<not> sublist marker (decoder buf)" by (auto dest: text_of_sublist_marker)
  then have "sentinel_match (decoder buf) = None" by (rule no_marker_no_match)
  then show ?thesis by (simp add: on_data_def errString_def)
qed

lemma on_data_all_no_marker:
  assumes "\<forall>buf. text_of buf (decoder buf)" and "\<forall>x \<in> set xs. \<not> sublist marker_bytes x"
  shows "on_data_all decoder parseInt (map BufferChunk xs) v = v"
  using assms(2)
proof (induction xs)
  case Nil
  show ?case by (simp add: on_data_all_def)
next
  case (Cons x xs)
  from Cons.prems assms(1) have "on_data decoder parseInt (BufferChunk x) v = v"
    by (simp add: on_data_no_marker)
  moreover from Cons have "on_data_all decoder parseInt (map BufferChunk xs) v = v" by simp
  ultimately show ?case by (simp add: on_data_all_def)
qed

lemma on_data_all_single:
  "on_data_all decoder parseInt [x] v = on_data decoder parseInt x v"
  by (simp add: on_data_all_def)

lemma prefix_drop_append:
  assumes "prefix pat (drop i x)" and "i \<le> length x"
  shows "prefix pat (drop (length F + i) (F @ x @ G))"
proof -
  from assms(2) have "drop (length F + i) (F @ x @ G) = drop i x @ G" by simp
  with assms(1) show ?thesis by (simp add: prefix_prefix)
qed

lemma sentinel_line_length: "length marker_bytes \<le> length (sentinel_line pid)"
  by (simp add: sentinel_line_def)

lemma concat_split: "concat (xs @ x # ys) = concat xs @ x @ concat ys"
  by simp

text \<open>
  Claim C9, as amended. Take a stream of bytes in which the marker occurs once, where a
  sentinel line for \<open>pid\<close> begins: \<open>pid\<close> is a non-empty string of digits, and after it the
  stream ends or goes on with a byte that is no digit. Let the stream arrive in any chunks
  such that the sentinel line lies within one of them: boundaries may fall anywhere before
  the line and anywhere from its last digit on, also inside a multi-byte character, and the
  other chunks may hold any bytes, the letter \<^verbatim>\<open>B\<close> among them. Then the listener, run on the
  chunks in order, leaves \<open>parseInt\<close> of the digits in \<^verbatim>\<open>browserProcessPid\<close>, whatever the
  variable held before, and so does the listener run on the whole stream as one chunk. This
  holds for every \<open>parseInt\<close> and for every decoder whose texts obey \<open>text_of\<close>.
\<close>

theorem pid_recovery_unsplit_sentinel:
  assumes dec: "\<forall>buf. text_of buf (decoder buf)"
    and pid: "digits pid"
    and nd: "no_digit_first (c @ concat after)"
    and once: "occurrences marker_bytes (concat (before @ [a @ sentinel_line pid @ c] @ after))
               = [length (concat before @ a)]"
  shows "on_data_all decoder parseInt
           (map BufferChunk (before @ [a @ sentinel_line pid @ c] @ after)) v
         = Some (parseInt (ustr pid))
       \<and> on_data_all decoder parseInt
           [BufferChunk (concat (before @ [a @ sentinel_line pid @ c] @ after))] v
         = Some (parseInt (ustr pid))"
proof -
  define X where "X = a @ sentinel_line pid @ c"
  define P where "P = concat before"
  define Q where "Q = concat after"
  define k where "k = length P + length a"
  have S: "concat (before @ [a @ sentinel_line pid @ c] @ after) = P @ X @ Q"
    by (simp add: X_def P_def Q_def)
  from once have once': "occurrences marker_bytes (P @ X @ Q) = [k]"
    by (simp add: X_def P_def Q_def k_def)
  have mb: "0 < length marker_bytes" by (simp add: marker_bytes_def)
  have before: "\<forall>x \<in> set before. \<not> sublist marker_bytes x"
  proof
    fix x assume "x \<in> set before"
    then obtain b1 b2 where b: "before = b1 @ x # b2" by (auto dest: split_list)
    have P: "P = concat b1 @ x @ concat b2" unfolding P_def b by (rule concat_split)
    have "occurrences marker_bytes (concat b1 @ x @ (concat b2 @ X @ Q)) = [k]"
      using once' by (simp add: P)
    moreover have "length (concat b1) + length x < k + length marker_bytes"
      using mb by (simp add: k_def P)
    ultimately show "\<not> sublist marker_bytes x"
      by (rule no_marker_in_other_chunk [OF _ disjI2])
  qed
  have after: "\<forall>x \<in> set after. \<not> sublist marker_bytes x"
  proof
    fix x assume "x \<in> set after"
    then obtain a1 a2 where b: "after = a1 @ x # a2" by (auto dest: split_list)
    have Q: "Q = concat a1 @ x @ concat a2" unfolding Q_def b by (rule concat_split)
    have "occurrences marker_bytes ((P @ X @ concat a1) @ x @ concat a2) = [k]"
      using once' by (simp add: Q)
    moreover have "k < length (P @ X @ concat a1)"
    proof -
      have "0 < length (sentinel_line pid)" using mb sentinel_line_length [of pid] by arith
      then have "length a < length X" unfolding X_def by simp
      then show ?thesis unfolding k_def by simp
    qed
    ultimately show "\<not> sublist marker_bytes x"
      by (rule no_marker_in_other_chunk [OF _ disjI1])
  qed
  have first: "\<forall>i < length a. \<not> prefix marker_bytes (drop i X)"
  proof (intro allI impI notI)
    fix i assume i: "i < length a" and p: "prefix marker_bytes (drop i X)"
    from i have le: "i \<le> length X" by (simp add: X_def)
    from p le have "prefix marker_bytes (drop (length P + i) (P @ X @ Q))"
      by (rule prefix_drop_append)
    moreover from le have "length P + i \<le> length (P @ X @ Q)" by simp
    ultimately have "length P + i = k" by (rule occurrences_single [OF once'])
    with i show False by (simp add: k_def)
  qed
  have first': "\<forall>i < length (P @ a).
      \<not> prefix marker_bytes (drop i ((P @ a) @ sentinel_line pid @ c @ Q))"
  proof (intro allI impI notI)
    fix i assume i: "i < length (P @ a)"
      and p: "prefix marker_bytes (drop i ((P @ a) @ sentinel_line pid @ c @ Q))"
    have eq: "(P @ a) @ sentinel_line pid @ c @ Q = P @ X @ Q" by (simp add: X_def)
    from p have "prefix marker_bytes (drop i (P @ X @ Q))" by (simp only: eq)
    moreover from i have "i \<le> length (P @ X @ Q)" by (simp add: X_def)
    ultimately have "i = k" by (rule occurrences_single [OF once'])
    with i show False by (simp add: k_def)
  qed
  from dec have TX: "text_of (a @ sentinel_line pid @ c) (decoder X)" by (simp add: X_def)
  from first have fX: "\<forall>i < length a. \<not> prefix marker_bytes (drop i (a @ sentinel_line pid @ c))"
    by (simp add: X_def)
  from nd have c: "no_digit_first c" by (rule no_digit_first_append)
  have mX: "sentinel_match (decoder X) = Some (ustr pid)"
    by (rule match_of_line_chunk [OF TX pid c fX])
  from dec have TS: "text_of ((P @ a) @ sentinel_line pid @ c @ Q) (decoder (P @ X @ Q))"
    by (simp add: X_def)
  from nd have cQ: "no_digit_first (c @ Q)" by (simp add: Q_def)
  have mS: "sentinel_match (decoder (P @ X @ Q)) = Some (ustr pid)"
    by (rule match_of_line_chunk [OF TS pid cQ first'])
  have "on_data_all decoder parseInt (map BufferChunk (before @ [X] @ after)) v
        = on_data_all decoder parseInt (map BufferChunk after)
            (on_data decoder parseInt (BufferChunk X)
              (on_data_all decoder parseInt (map BufferChunk before) v))"
    by (simp add: on_data_all_def)
  also have "\<dots> = on_data decoder parseInt (BufferChunk X)
              (on_data_all decoder parseInt (map BufferChunk before) v)"
    by (rule on_data_all_no_marker [OF dec after])
  also have "\<dots> = Some (parseInt (ustr pid))"
    using mX by (rule on_data_match)
  finally have chunked: "on_data_all decoder parseInt (map BufferChunk (before @ [X] @ after)) v
        = Some (parseInt (ustr pid))" .
  have "on_data_all decoder parseInt [BufferChunk (P @ X @ Q)] v
        = on_data decoder parseInt (BufferChunk (P @ X @ Q)) v"
    by (rule on_data_all_single)
  also have "\<dots> = Some (parseInt (ustr pid))"
    using mS by (rule on_data_match)
  finally have single: "on_data_all decoder parseInt [BufferChunk (P @ X @ Q)] v
        = Some (parseInt (ustr pid))" .
  from chunked single show ?thesis
    by (simp only: S) (simp only: X_def)
qed

lemma text_of_example_decoder: "text_of buf (example_decoder buf)"
proof (induction buf)
  case Nil
  show ?case by (simp add: example_decoder_def text_Nil)
next
  case (Cons c buf)
  show ?case
  proof (cases "of_char c < (0x80::nat)")
    case True
    from text_ascii [OF True Cons] True show ?thesis by (simp add: example_decoder_def)
  next
    case False
    have "text_of ([c] @ buf) ([0xFFFD] @ example_decoder buf)"
      by (rule text_other) (use False Cons in simp_all)
    with False show ?thesis by (simp add: example_decoder_def)
  qed
qed

text \<open>
  The hypotheses hold for the decoder \<open>example_decoder\<close> and a stream of three chunks that has
  the letter \<^verbatim>\<open>B\<close> in the lines around the sentinel line and a chunk boundary between the two
  bytes \<^verbatim>\<open>C3 A9\<close> of one character.
\<close>

theorem pid_recovery_unsplit_sentinel_witness:
  "(\<forall>buf. text_of buf (example_decoder buf))
   \<and> digits ''1234''
   \<and> no_digit_first ([newline, CHR 0xC3] @ concat [CHR 0xA9 # ''Bye'' @ [newline]])
   \<and> occurrences marker_bytes
        (concat ([''Bash: starting'' @ [newline]]
                 @ [''log: '' @ sentinel_line ''1234'' @ [newline, CHR 0xC3]]
                 @ [CHR 0xA9 # ''Bye'' @ [newline]]))
      = [length (concat [''Bash: starting'' @ [newline]] @ ''log: '')]
   \<and> on_data_all example_decoder example_parseInt
        (map BufferChunk
           ([''Bash: starting'' @ [newline]]
            @ [''log: '' @ sentinel_line ''1234'' @ [newline, CHR 0xC3]]
            @ [CHR 0xA9 # ''Bye'' @ [newline]])) None
      = Some 1234
   \<and> on_data_all example_decoder example_parseInt
        [BufferChunk
           (concat ([''Bash: starting'' @ [newline]]
                    @ [''log: '' @ sentinel_line ''1234'' @ [newline, CHR 0xC3]]
                    @ [CHR 0xA9 # ''Bye'' @ [newline]]))] None
      = Some 1234"
proof -
  have dec: "\<forall>buf. text_of buf (example_decoder buf)"
    by (simp add: text_of_example_decoder)
  have pid: "digits ''1234''"
    by (simp add: digits_def is_digit_def)
  have nd: "no_digit_first ([newline, CHR 0xC3] @ concat [CHR 0xA9 # ''Bye'' @ [newline]])"
    by (simp add: no_digit_first_def newline_def is_digit_def)
  have once: "occurrences marker_bytes
        (concat ([''Bash: starting'' @ [newline]]
                 @ [''log: '' @ sentinel_line ''1234'' @ [newline, CHR 0xC3]]
                 @ [CHR 0xA9 # ''Bye'' @ [newline]]))
      = [length (concat [''Bash: starting'' @ [newline]] @ ''log: '')]"
    by (simp add: sentinel_line_def marker_bytes_def newline_def)
  have val: "example_parseInt (ustr ''1234'') = 1234"
    by (simp add: example_parseInt_def ustr_def)
  from dec pid nd once
    pid_recovery_unsplit_sentinel
      [where decoder = example_decoder and parseInt = example_parseInt and v = None,
       OF dec pid nd once]
  show ?thesis
    by (simp only: val) simp
qed

lemmas handler_eval =
  on_data_all_def on_data_def errString_def example_decoder_def example_parseInt_def
  sentinel_here_def sentinel_line_def marker_def marker_bytes_def debug_me_def ustr_def
  is_space_def is_digit_def Let_def newline_def

text \<open>
  Claim C9 as stated fails when a chunk boundary falls inside the sentinel line. The stream
  is the line for 1234 and a line end. Split inside the digits, the chunks give the identifier
  12 where the whole stream gives 1234; split inside the marker, they give none.
\<close>

theorem pid_recovery_split_counterexample:
  "on_data_all example_decoder example_parseInt
     (map BufferChunk [sentinel_line ''12'', ''34'' @ [newline]]) None = Some 12
   \<and> on_data_all example_decoder example_parseInt
       [BufferChunk (concat [sentinel_line ''12'', ''34'' @ [newline]])] None = Some 1234
   \<and> on_data_all example_decoder example_parseInt
       (map BufferChunk [''BROWSERBROWSER'', ''BROWSERBROWSER debug me @ 1234'' @ [newline]]) None
     = None
   \<and> on_data_all example_decoder example_parseInt
       [BufferChunk (concat [''BROWSERBROWSER'', ''BROWSERBROWSER debug me @ 1234'' @ [newline]])]
       None
     = Some 1234
   \<and> concat [sentinel_line ''12'', ''34'' @ [newline]] = sentinel_line ''1234'' @ [newline]
   \<and> concat [''BROWSERBROWSER'', ''BROWSERBROWSER debug me @ 1234'' @ [newline]]
     = sentinel_line ''1234'' @ [newline]"
  by (simp add: handler_eval)

section \<open>Properties of the kill handler\<close>

lemma world_eqI:
  "terminations w = t \<Longrightarrow> tick_queue w = q \<Longrightarrow> invoked w = i \<Longrightarrow>
   w = \<lparr>terminations = t, tick_queue = q, invoked = i\<rparr>" for w :: "'cb world"
  by (cases w) simp

text \<open>
  Claim C2. Whatever the state of the launcher and whichever termination calls throw, the kill
  handler returns without an exception, has queued its callback exactly once and has not run
  it; the next tick runs it once. When no process identifier was recovered no termination
  call is made; when one was recovered (and is not 0) the call is made, a Taskkill after a
  bridged launch and a \<^verbatim>\<open>process.kill\<close> otherwise, and an exception it raises is discarded.
\<close>

theorem kill_calls_back_once:
  "\<exists>w'. kill throws b done w = Inr w'
        \<and> invoked w' = invoked w
        \<and> tick_queue w' = tick_queue w @ [done]
        \<and> invoked (next_tick w') = invoked w @ tick_queue w @ [done]
        \<and> tick_queue (next_tick w') = []
        \<and> (browserProcessPid b = None \<longrightarrow> terminations w' = terminations w)
        \<and> (\<forall>pid. browserProcessPid b = Some pid \<and> pid \<noteq> 0 \<longrightarrow>
              terminations w' =
                (if throws (if windowsUsed b then Taskkill pid else ProcessKill pid)
                 then terminations w
                 else terminations w @ [if windowsUsed b then Taskkill pid else ProcessKill pid]))"
  by (auto simp: kill_def terminate_def next_tick_def Let_def split: option.splits)

text \<open>
  A launcher without a process identifier, and one with the identifier 4711 of a bridged
  launch, both when the termination call throws and when it does not.
\<close>

theorem kill_calls_back_once_witness:
  "browserProcessPid example_launcher = None
   \<and> kill always_throws example_launcher ''done'' world0
       = Inr \<lparr>terminations = [], tick_queue = [''done''], invoked = []\<rparr>
   \<and> next_tick \<lparr>terminations = [], tick_queue = [''done''], invoked = []\<rparr>
       = \<lparr>terminations = [], tick_queue = [], invoked = [''done'']\<rparr>
   \<and> kill always_throws (example_launcher\<lparr>windowsUsed := True, browserProcessPid := Some 4711\<rparr>)
         ''done'' world0
       = Inr \<lparr>terminations = [], tick_queue = [''done''], invoked = []\<rparr>
   \<and> kill never_throws (example_launcher\<lparr>windowsUsed := True, browserProcessPid := Some 4711\<rparr>)
         ''done'' world0
       = Inr \<lparr>terminations = [Taskkill 4711], tick_queue = [''done''], invoked = []\<rparr>"
proof -
  let ?b = "example_launcher\<lparr>windowsUsed := True, browserProcessPid := Some 4711\<rparr>"
  let ?P = "\<lambda>throws b w'. kill throws b ''done'' world0 = Inr w'
        \<and> invoked w' = invoked world0
        \<and> tick_queue w' = tick_queue world0 @ [''done'']
        \<and> invoked (next_tick w') = invoked world0 @ tick_queue world0 @ [''done'']
        \<and> tick_queue (next_tick w') = []
        \<and> (browserProcessPid b = None \<longrightarrow> terminations w' = terminations world0)
        \<and> (\<forall>pid. browserProcessPid b = Some pid \<and> pid \<noteq> 0 \<longrightarrow>
              terminations w' =
                (if throws (if windowsUsed b then Taskkill pid else ProcessKill pid)
                 then terminations world0
                 else terminations world0 @ [if windowsUsed b then Taskkill pid else ProcessKill pid]))"
  have none: "browserProcessPid example_launcher = None"
    by (simp add: example_launcher_def)
  have some: "browserProcessPid ?b = Some 4711 \<and> (4711::nat) \<noteq> 0" and used: "windowsUsed ?b"
    by simp_all
  have w0: "terminations world0 = []" "tick_queue world0 = []" "invoked world0 = []"
    by (simp_all add: world0_def)
  from kill_calls_back_once [of always_throws example_launcher "''done''" world0]
  obtain w1 where w1: "?P always_throws example_launcher w1" ..
  from w1 none have "terminations w1 = terminations world0" by blast
  moreover from w1 have "tick_queue w1 = tick_queue world0 @ [''done'']" by blast
  moreover from w1 have "invoked w1 = invoked world0" by blast
  ultimately have e1: "w1 = \<lparr>terminations = [], tick_queue = [''done''], invoked = []\<rparr>"
    unfolding w0 by (intro world_eqI) simp_all
  from kill_calls_back_once [of always_throws ?b "''done''" world0]
  obtain w2 where w2: "?P always_throws ?b w2" ..
  from w2 some have "terminations w2 =
      (if always_throws (if windowsUsed ?b then Taskkill 4711 else ProcessKill 4711)
       then terminations world0
       else terminations world0 @ [if windowsUsed ?b then Taskkill 4711 else ProcessKill 4711])"
    by blast
  then have "terminations w2 = []"
    by (simp add: always_throws_def w0)
  moreover from w2 have "tick_queue w2 = tick_queue world0 @ [''done'']" by blast
  moreover from w2 have "invoked w2 = invoked world0" by blast
  ultimately have e2: "w2 = \<lparr>terminations = [], tick_queue = [''done''], invoked = []\<rparr>"
    unfolding w0 by (intro world_eqI) simp_all
  from kill_calls_back_once [of never_throws ?b "''done''" world0]
  obtain w3 where w3: "?P never_throws ?b w3" ..
  from w3 some have "terminations w3 =
      (if never_throws (if windowsUsed ?b then Taskkill 4711 else ProcessKill 4711)
       then terminations world0
       else terminations world0 @ [if windowsUsed ?b then Taskkill 4711 else ProcessKill 4711])"
    by blast
  then have "terminations w3 = [Taskkill 4711]"
    by (simp add: never_throws_def w0)
  moreover from w3 have "tick_queue w3 = tick_queue world0 @ [''done'']" by blast
  moreover from w3 have "invoked w3 = invoked world0" by blast
  ultimately have e3: "w3 = \<lparr>terminations = [Taskkill 4711], tick_queue = [''done''], invoked = []\<rparr>"
    unfolding w0 by (intro world_eqI) simp_all
  have nt: "next_tick \<lparr>terminations = [], tick_queue = [''done''], invoked = []\<rparr>
       = \<lparr>terminations = [], tick_queue = [], invoked = [''done'']\<rparr>"
    by (simp add: next_tick_def)
  from w1 have k1: "kill always_throws example_launcher ''done'' world0 = Inr w1" by blast
  from w2 have k2: "kill always_throws ?b ''done'' world0 = Inr w2" by blast
  from w3 have k3: "kill never_throws ?b ''done'' world0 = Inr w3" by blast
  show ?thesis
    unfolding k1 k2 k3 e1 e2 e3 using none nt by simp
qed

end
